theory Spec2Isabelle
  imports Main "HOL-Library.Sublist" "HOL-Library.AList"
begin

section \<open>The navigation engine of \<^verbatim>\<open>_includes/js/dependencies/pjax.js\<close>\<close>

text \<open>
  The file holds two generations of the engine: the object literal \<^verbatim>\<open>pjax\<close> (lines 1-123)
  and the class \<^verbatim>\<open>PJAX\<close> (lines 124-383), whose instance is bound to \<^verbatim>\<open>window.pjax\<close> at
  the end of the file. The class is the engine with a replace configuration, a link selector
  and an array queue; it is the one embedded method by method below. The load handler of the
  object literal is embedded as well, since the two differ in the order of their steps.

  What the browser supplies is modelled as follows.
  \<^item> A document is the list of children of its document node; a node is an element
    (tag, attributes in order, number of click listeners attached, children) or a text node.
  \<^item> An element reference is the path of child indices from the document node. The only
    mutations made while a node list is held are assignments to \<^verbatim>\<open>textContent\<close> and
    \<^verbatim>\<open>setAttribute\<close>; the first removes every element below its target, so a held reference
    whose path no longer leads to an element stands for an element that was detached, and an
    assignment through it does not change the document.
  \<^item> Selectors are kept in parsed form: a chain of compound selectors joined by the
    descendant combinator. The template literal \<^verbatim>\<open>`${a} ${b}`\<close> is the concatenation of chains.
    Only well-formed selectors and attribute names are represented.
  \<^item> A callback is a function value with an identity and a body acting on an opaque user
    state; the body may throw. Callbacks and inline scripts do not reach into the engine.
    The window records which functions were invoked, which script texts were handed to the
    evaluator, what was logged, pushed and requested, and which exceptions left a handler.
  \<^item> The response given to a load handler is a document, the live document has a head to
    append scripts to, and the window has no property named \<^verbatim>\<open>queue\<close>.
\<close>

subsection \<open>Documents\<close>

datatype node =
    Element (tag: string) (attrs: "(string \<times> string) list") (listeners: nat) (children: "node list")
  | Text string

type_synonym document = "node list"
type_synonym path = "nat list"

text \<open>A node list as \<^verbatim>\<open>querySelectorAll\<close> returns it: static, in document order; each entry
  is the reference together with the node it referred to when the list was made.\<close>

type_synonym NodeList = "(path \<times> node) list"

fun is_element :: "node \<Rightarrow> bool" where
  "is_element (Element t a l cs) = True"
| "is_element (Text s) = False"

fun get_textContent :: "node \<Rightarrow> string" where
  "get_textContent (Text s) = s"
| "get_textContent (Element t a l cs) = concat (map get_textContent cs)"

text \<open>The setter of \<^verbatim>\<open>textContent\<close>: all children are replaced by one text node, or by
  nothing when the string is empty.\<close>

fun set_textContent :: "string \<Rightarrow> node \<Rightarrow> node" where
  "set_textContent s (Element t a l cs) = Element t a l (if s = [] then [] else [Text s])"
| "set_textContent s (Text x) = Text x"

fun getAttribute :: "string \<Rightarrow> node \<Rightarrow> string option" where
  "getAttribute name (Element t a l cs) = map_of a name"
| "getAttribute name (Text s) = None"

text \<open>\<^verbatim>\<open>setAttribute\<close> converts its value to a string: \<^verbatim>\<open>null\<close> becomes the text "null".\<close>

fun to_string :: "string option \<Rightarrow> string" where
  "to_string None = ''null''"
| "to_string (Some v) = v"

fun setAttribute :: "string \<Rightarrow> string option \<Rightarrow> node \<Rightarrow> node" where
  "setAttribute name v (Element t a l cs) = Element t (AList.update name (to_string v) a) l cs"
| "setAttribute name v (Text s) = Text s"

fun addEventListener :: "node \<Rightarrow> node" where
  "addEventListener (Element t a l cs) = Element t a (Suc l) cs"
| "addEventListener (Text s) = Text s"

fun node_at :: "path \<Rightarrow> document \<Rightarrow> node option" where
  "node_at [] ns = None"
| "node_at [k] ns = (if k < length ns then Some (ns ! k) else None)"
| "node_at (k # j # p) ns =
     (if k < length ns
      then (case ns ! k of Element t a l cs \<Rightarrow> node_at (j # p) cs | Text s \<Rightarrow> None)
      else None)"

fun map_at :: "path \<Rightarrow> (node \<Rightarrow> node) \<Rightarrow> document \<Rightarrow> document" where
  "map_at [] f ns = ns"
| "map_at [k] f ns = (if k < length ns then ns[k := f (ns ! k)] else ns)"
| "map_at (k # j # p) f ns =
     (if k < length ns
      then (case ns ! k of
              Element t a l cs \<Rightarrow> ns[k := Element t a l (map_at (j # p) f cs)]
            | Text s \<Rightarrow> ns)
      else ns)"

fun remove_at :: "path \<Rightarrow> document \<Rightarrow> document" where
  "remove_at [] ns = ns"
| "remove_at [k] ns = (if k < length ns then take k ns @ drop (Suc k) ns else ns)"
| "remove_at (k # j # p) ns =
     (if k < length ns
      then (case ns ! k of
              Element t a l cs \<Rightarrow> ns[k := Element t a l (remove_at (j # p) cs)]
            | Text s \<Rightarrow> ns)
      else ns)"

subsection \<open>Selectors\<close>

datatype simple =
    Tag string
  | Class string
  | AttrIs string string
  | AttrEnds string string
  | AttrBegins string string

type_synonym compound = "simple list"
type_synonym selector = "compound list"

definition is_space :: "char \<Rightarrow> bool" where
  "is_space c = (c \<in> set [CHR '' '', CHR 0x09, CHR 0x0A, CHR 0x0C, CHR 0x0D])"

fun tokens :: "string \<Rightarrow> string \<Rightarrow> string list" where
  "tokens cur [] = (if cur = [] then [] else [rev cur])"
| "tokens cur (c # cs) =
     (if is_space c
      then (if cur = [] then tokens [] cs else rev cur # tokens [] cs)
      else tokens (c # cur) cs)"

text \<open>ASCII lower case. In a document made by the parser of the browser the names of elements
  and attributes are in lower case, and a selector is matched against them with its own names
  in lower case.\<close>

definition lower_char :: "char \<Rightarrow> char" where
  "lower_char c =
     (case map_of (zip ''ABCDEFGHIJKLMNOPQRSTUVWXYZ'' ''abcdefghijklmnopqrstuvwxyz'') c of
        None \<Rightarrow> c | Some l \<Rightarrow> l)"

definition lower :: "string \<Rightarrow> string" where
  "lower s = map lower_char s"

text \<open>The attributes whose values a selector compares without regard to ASCII case on the
  elements of such a document; the values of all others are compared as they are.\<close>

definition case_insensitive_attributes :: "string list" where
  "case_insensitive_attributes =
     [''accept'', ''accept-charset'', ''align'', ''alink'', ''axis'', ''bgcolor'', ''charset'',
      ''checked'', ''clear'', ''codetype'', ''color'', ''compact'', ''declare'', ''defer'', ''dir'',
      ''direction'', ''disabled'', ''enctype'', ''face'', ''frame'', ''hreflang'', ''http-equiv'',
      ''lang'', ''language'', ''link'', ''media'', ''method'', ''multiple'', ''nohref'', ''noresize'',
      ''noshade'', ''nowrap'', ''readonly'', ''rel'', ''rev'', ''rules'', ''scope'', ''scrolling'',
      ''selected'', ''shape'', ''target'', ''text'', ''type'', ''valign'', ''valuetype'', ''vlink'']"

definition folded :: "string \<Rightarrow> string \<Rightarrow> string" where
  "folded k s = (if lower k \<in> set case_insensitive_attributes then lower s else s)"

fun matches_simple :: "simple \<Rightarrow> node \<Rightarrow> bool" where
  "matches_simple s (Text x) = False"
| "matches_simple (Tag n) (Element t a l cs) = (lower n = t)"
| "matches_simple (Class c) (Element t a l cs) =
     (case map_of a ''class'' of None \<Rightarrow> False | Some v \<Rightarrow> c \<in> set (tokens [] v))"
| "matches_simple (AttrIs k v) (Element t a l cs) =
     (case map_of a (lower k) of None \<Rightarrow> False | Some x \<Rightarrow> folded k x = folded k v)"
| "matches_simple (AttrEnds k v) (Element t a l cs) =
     (case map_of a (lower k) of None \<Rightarrow> False
      | Some x \<Rightarrow> v \<noteq> [] \<and> suffix (folded k v) (folded k x))"
| "matches_simple (AttrBegins k v) (Element t a l cs) =
     (case map_of a (lower k) of None \<Rightarrow> False
      | Some x \<Rightarrow> v \<noteq> [] \<and> prefix (folded k v) (folded k x))"

definition matches_compound :: "compound \<Rightarrow> node \<Rightarrow> bool" where
  "matches_compound c n = list_all (\<lambda>s. matches_simple s n) c"

text \<open>The remaining compounds of a chain, innermost first, against the ancestors, nearest
  first: each compound takes the nearest ancestor that matches it.\<close>

fun matches_ancestors :: "compound list \<Rightarrow> node list \<Rightarrow> bool" where
  "matches_ancestors [] ancs = True"
| "matches_ancestors (c # cs) [] = False"
| "matches_ancestors (c # cs) (a # ancs) =
     (if matches_compound c a then matches_ancestors cs ancs
      else matches_ancestors (c # cs) ancs)"

definition matches :: "selector \<Rightarrow> node list \<Rightarrow> node \<Rightarrow> bool" where
  "matches sel ancs n =
     (case rev sel of [] \<Rightarrow> False
      | c # cs \<Rightarrow> matches_compound c n \<and> matches_ancestors cs ancs)"

function querySelectorAll_from :: "selector \<Rightarrow> node list \<Rightarrow> nat \<Rightarrow> node list \<Rightarrow> NodeList" where
  "querySelectorAll_from sel ancs k [] = []"
| "querySelectorAll_from sel ancs k (Text s # ns) = querySelectorAll_from sel ancs (Suc k) ns"
| "querySelectorAll_from sel ancs k (Element t a l cs # ns) =
     (if matches sel ancs (Element t a l cs) then [([k], Element t a l cs)] else [])
     @ map (\<lambda>(p, n). (k # p, n)) (querySelectorAll_from sel (Element t a l cs # ancs) 0 cs)
     @ querySelectorAll_from sel ancs (Suc k) ns"
  by pat_completeness auto
termination
  by (relation "measure (\<lambda>(sel, ancs, k, ns). size_list size ns)") auto

definition querySelectorAll :: "selector \<Rightarrow> document \<Rightarrow> NodeList" where
  "querySelectorAll sel d = querySelectorAll_from sel [] 0 d"

text \<open>\<^verbatim>\<open>querySelector\<close>: the first match in document order, or null.\<close>

definition querySelector :: "selector \<Rightarrow> document \<Rightarrow> (path \<times> node) option" where
  "querySelector sel d = (case querySelectorAll sel d of [] \<Rightarrow> None | x # xs \<Rightarrow> Some x)"

text \<open>Indexing a node list: \<^verbatim>\<open>undefined\<close> out of range.\<close>

definition item :: "'a list \<Rightarrow> nat \<Rightarrow> 'a option" where
  "item xs k = (if k < length xs then Some (xs ! k) else None)"

subsection \<open>Values, completions, the engine and the window\<close>

datatype js_error = TypeError

text \<open>How a piece of code ends: normally, or by throwing; either way with the state it
  has reached, since the mutations made before a throw stay.\<close>

datatype 's completion = Normal 's | Throw js_error 's

fun state_of :: "'s completion \<Rightarrow> 's" where
  "state_of (Normal s) = s"
| "state_of (Throw e s) = s"

fun thrown :: "'s completion \<Rightarrow> js_error option" where
  "thrown (Normal s) = None"
| "thrown (Throw e s) = Some e"

text \<open>A function value carries its identity and its body: the body takes the user state
  and returns the new one, with the exception it threw if it did.\<close>

datatype 'u jsval =
    JUndefined
  | JNull
  | JBool bool
  | JNum int
  | JStr string
  | JObject
  | JFunction nat "'u \<Rightarrow> 'u \<times> string option"

fun is_function :: "'u jsval \<Rightarrow> bool" where
  "is_function (JFunction i body) = True"
| "is_function v = False"

fun function_id :: "'u jsval \<Rightarrow> nat" where
  "function_id (JFunction i body) = i"
| "function_id v = 0"

fun function_body :: "'u jsval \<Rightarrow> 'u \<Rightarrow> 'u \<times> string option" where
  "function_body (JFunction i body) = body"
| "function_body v = (\<lambda>u. (u, None))"

text \<open>The value of \<^verbatim>\<open>afterLoad\<close> and of \<^verbatim>\<open>window.onload\<close>: unset, or the method
  \<^verbatim>\<open>execQueue\<close> read off the instance (a plain function, not bound to it).\<close>

datatype hook = Unset | ExecQueue

text \<open>A line of the console: \<^verbatim>\<open>console.log('Failed to execute: ', e, func)\<close> of the
  class, with the exception and the function, and \<^verbatim>\<open>console.log(e)\<close> of the object literal.\<close>

datatype log_line = Failed_to_execute string nat | Logged string

record attribute_entry =
  selector :: selector
  attribute :: string

record ReplaceConfig =
  textContent :: "selector list"
  attributes :: "attribute_entry list"

record 'u PJAX =
  container :: selector
  links :: selector
  replace :: ReplaceConfig
  queue :: "'u jsval list"
  afterLoad :: hook

record 'u window =
  document :: document
  location_href :: string
  pushState_supported :: bool
  pushed :: "string list"
  onpopstate :: bool
  onload_handler :: hook
  requested :: "string list"
  evaluated :: "string list"
  console :: "log_line list"
  invoked :: "nat list"
  uncaught :: "js_error list"
  user :: 'u

text \<open>The receiver of a call: \<^verbatim>\<open>this\<close> is the instance in a method call on it, and the
  window when the browser calls a handler stored in \<^verbatim>\<open>window.onload\<close>. The window has no
  property \<^verbatim>\<open>queue\<close>.\<close>

datatype 'u receiver = Instance "'u PJAX" | Window

subsection \<open>The class \<^verbatim>\<open>PJAX\<close>\<close>

definition DEFAULT_CONTAINER :: selector where
  "DEFAULT_CONTAINER = [[Class ''body'']]"

definition DEFAULT_LINKS :: selector where
  "DEFAULT_LINKS = [[Class ''pjax-link'']]"

definition DEFAULT_REPLACE :: ReplaceConfig where
  "DEFAULT_REPLACE =
     \<lparr> textContent = [[[Tag ''title'']]],
       attributes =
         [\<lparr> selector = [[Tag ''meta'', AttrEnds ''name'' ''title'']], attribute = ''content'' \<rparr>,
          \<lparr> selector = [[Tag ''meta'', AttrEnds ''name'' ''description'']], attribute = ''content'' \<rparr>,
          \<lparr> selector = [[Tag ''meta'', AttrBegins ''property'' ''og:'']], attribute = ''content'' \<rparr>,
          \<lparr> selector = [[Tag ''meta'', AttrBegins ''property'' ''article:'']], attribute = ''content'' \<rparr>,
          \<lparr> selector = [[Tag ''link'', AttrIs ''rel'' ''canonical'']], attribute = ''href'' \<rparr>] \<rparr>"

text \<open>Lines 145-154: the constructor; an argument left out takes its default.\<close>

definition constructor ::
  "selector option \<Rightarrow> selector option \<Rightarrow> ReplaceConfig option \<Rightarrow> 'u PJAX" where
  "constructor c l r =
     \<lparr> container = (case c of None \<Rightarrow> DEFAULT_CONTAINER | Some x \<Rightarrow> x),
       links = (case l of None \<Rightarrow> DEFAULT_LINKS | Some x \<Rightarrow> x),
       replace = (case r of None \<Rightarrow> DEFAULT_REPLACE | Some x \<Rightarrow> x),
       queue = [],
       afterLoad = Unset \<rparr>"

text \<open>Lines 346-358, \<^verbatim>\<open>execQueue\<close>: one entry of the \<^verbatim>\<open>forEach\<close>, then the loop, then the method
  with its receiver. Reading \<^verbatim>\<open>this.queue\<close> off the window gives \<^verbatim>\<open>undefined\<close>, and calling
  \<^verbatim>\<open>forEach\<close> on that throws.\<close>

definition execQueue_entry :: "'u jsval \<Rightarrow> 'u window \<Rightarrow> 'u window" where
  "execQueue_entry func w =
     (case func of
        JFunction i body \<Rightarrow>
          (case body (user w) of
             (u, None) \<Rightarrow> w\<lparr> user := u, invoked := invoked w @ [i] \<rparr>
           | (u, Some e) \<Rightarrow>
               w\<lparr> user := u, invoked := invoked w @ [i], console := console w @ [Failed_to_execute e i] \<rparr>)
      | _ \<Rightarrow> w)"

fun execQueue_forEach :: "'u jsval list \<Rightarrow> 'u window \<Rightarrow> 'u window" where
  "execQueue_forEach [] w = w"
| "execQueue_forEach (func # rest) w = execQueue_forEach rest (execQueue_entry func w)"

definition execQueue :: "'u receiver \<Rightarrow> 'u window \<Rightarrow> 'u window completion" where
  "execQueue this w =
     (case this of
        Instance p \<Rightarrow> Normal (execQueue_forEach (queue p) w)
      | Window \<Rightarrow> Throw TypeError w)"

text \<open>Lines 368-377. Both hooks receive the method as a value.\<close>

definition onload :: "'u jsval \<Rightarrow> 'u PJAX \<Rightarrow> 'u window \<Rightarrow> 'u PJAX \<times> 'u window" where
  "onload callback this w =
     (let this1 = (if is_function callback then this\<lparr> queue := queue this @ [callback] \<rparr> else this)
      in (this1\<lparr> afterLoad := ExecQueue \<rparr>, w\<lparr> onload_handler := ExecQueue \<rparr>))"

text \<open>Lines 258-263 and 336: \<^verbatim>\<open>request\<close> opens and sends one GET; the response arrives later,
  as a load event.\<close>

definition request :: "string \<Rightarrow> 'u window \<Rightarrow> 'u window" where
  "request url w = w\<lparr> requested := requested w @ [url] \<rparr>"

text \<open>Lines 239-249: one more click listener on every link of the list. The number of
  listeners on an element is all that is kept of them: what a listener does when a click
  runs it (lines 242-244) depends on the target of the click and on how the browser resolves
  and admits its address, and no property below speaks of it.\<close>

fun addLinkEvent :: "NodeList \<Rightarrow> document \<Rightarrow> document" where
  "addLinkEvent [] d = d"
| "addLinkEvent (pjaxLink # rest) d = addLinkEvent rest (map_at (fst pjaxLink) addEventListener d)"

text \<open>Lines 222-224: the handler stored in \<^verbatim>\<open>window.onpopstate\<close>.\<close>

definition popstate_handler :: "'u window \<Rightarrow> 'u window" where
  "popstate_handler w = request (location_href w) w"

text \<open>Lines 218-231, the method \<^verbatim>\<open>setup\<close>.\<close>

definition PJAX_setup :: "'u PJAX \<Rightarrow> 'u window \<Rightarrow> 'u window completion" where
  "PJAX_setup this w =
     (if pushState_supported w
      then (let w1 = w\<lparr> document := addLinkEvent (querySelectorAll (links this) (document w)) (document w) \<rparr>;
                w2 = w1\<lparr> onpopstate := True \<rparr>
            in execQueue (Instance this) w2)
      else Normal w)"

subsection \<open>The load handler of \<^verbatim>\<open>PJAX.request\<close>\<close>

text \<open>Sequencing of completions: a throw ends the run.\<close>

fun and_then :: "'s completion \<Rightarrow> ('s \<Rightarrow> 's completion) \<Rightarrow> 's completion" where
  "and_then (Normal s) f = f s"
| "and_then (Throw e s) f = Throw e s"

text \<open>\<^verbatim>\<open>NodeList.forEach\<close> over a static list with a callback that may throw; the callback
  gets the element and its index.\<close>

fun forEach :: "(path \<times> node \<Rightarrow> nat \<Rightarrow> 's \<Rightarrow> 's completion) \<Rightarrow> nat \<Rightarrow> NodeList \<Rightarrow> 's \<Rightarrow> 's completion" where
  "forEach f key [] s = Normal s"
| "forEach f key (element # rest) s = and_then (f element key s) (forEach f (Suc key) rest)"

text \<open>Lines 274-282. Reading a property of \<^verbatim>\<open>found[key]\<close> throws when it is
  \<^verbatim>\<open>undefined\<close>; the condition before it is the guard of the source.\<close>

definition textContent_callback ::
  "selector \<Rightarrow> document \<Rightarrow> path \<times> node \<Rightarrow> nat \<Rightarrow> document \<Rightarrow> document completion" where
  "textContent_callback sel response element key d =
     (let found = querySelectorAll sel response
      in if length found \<noteq> 0 \<and> item found key \<noteq> None
         then (case item found key of
                 None \<Rightarrow> Throw TypeError d
               | Some fk \<Rightarrow> Normal (map_at (fst element) (set_textContent (get_textContent (snd fk))) d))
         else Normal d)"

text \<open>Lines 269-283: the loop over \<^verbatim>\<open>this.replace.textContent\<close>.\<close>

definition replace_textContent_entry :: "selector \<Rightarrow> document \<Rightarrow> document \<Rightarrow> document completion" where
  "replace_textContent_entry sel response d =
     forEach (textContent_callback sel response) 0 (querySelectorAll sel d) d"

fun replace_textContent :: "selector list \<Rightarrow> document \<Rightarrow> document \<Rightarrow> document completion" where
  "replace_textContent [] response d = Normal d"
| "replace_textContent (sel # rest) response d =
     and_then (replace_textContent_entry sel response d) (replace_textContent rest response)"

text \<open>Lines 291-304.\<close>

definition attribute_callback ::
  "attribute_entry \<Rightarrow> document \<Rightarrow> path \<times> node \<Rightarrow> nat \<Rightarrow> document \<Rightarrow> document completion" where
  "attribute_callback entry response element key d =
     (let found = querySelectorAll (selector entry) response
      in if length found \<noteq> 0 \<and> item found key \<noteq> None
         then (case item found key of
                 None \<Rightarrow> Throw TypeError d
               | Some fk \<Rightarrow>
                   Normal (map_at (fst element)
                             (setAttribute (attribute entry) (getAttribute (attribute entry) (snd fk))) d))
         else Normal d)"

text \<open>Lines 286-305: the loop over \<^verbatim>\<open>this.replace.attribute\<close>.\<close>

definition replace_attribute_entry ::
  "attribute_entry \<Rightarrow> document \<Rightarrow> document \<Rightarrow> document completion" where
  "replace_attribute_entry entry response d =
     forEach (attribute_callback entry response) 0 (querySelectorAll (selector entry) d) d"

fun replace_attribute :: "attribute_entry list \<Rightarrow> document \<Rightarrow> document \<Rightarrow> document completion" where
  "replace_attribute [] response d = Normal d"
| "replace_attribute (entry # rest) response d =
     and_then (replace_attribute_entry entry response d) (replace_attribute rest response)"

text \<open>Lines 323-327: a fresh script element with the text of each collected script is
  appended to the head and removed again; appending it evaluates its text.\<close>

fun run_scripts :: "NodeList \<Rightarrow> 'u window \<Rightarrow> 'u window" where
  "run_scripts [] w = w"
| "run_scripts (code # rest) w =
     run_scripts rest (w\<lparr> evaluated := evaluated w @ [get_textContent (snd code)] \<rparr>)"

text \<open>Lines 313-316. \<^verbatim>\<open>replaceChild\<close> moves the new page out of the response into the
  live document. A null \<^verbatim>\<open>currentPage\<close> throws at \<^verbatim>\<open>.parentNode\<close>, a null \<^verbatim>\<open>newPage\<close>
  in \<^verbatim>\<open>replaceChild\<close>. The result is the live document and what is left of the response.\<close>

definition swap_container :: "selector \<Rightarrow> document \<Rightarrow> document \<Rightarrow> (document \<times> document) completion" where
  "swap_container c response d =
     (let newPage = querySelector c response;
          currentPage = querySelector c d
      in case currentPage of
           None \<Rightarrow> Throw TypeError (d, response)
         | Some cur \<Rightarrow>
             (case newPage of
                None \<Rightarrow> Throw TypeError (d, response)
              | Some new \<Rightarrow> Normal (map_at (fst cur) (\<lambda>n. snd new) d, remove_at (fst new) response)))"

text \<open>Lines 269-305: the two replacement loops, one after the other.\<close>

definition replace_fields :: "ReplaceConfig \<Rightarrow> document \<Rightarrow> document \<Rightarrow> document completion" where
  "replace_fields cfg response d =
     and_then (replace_textContent (textContent cfg) response d)
              (replace_attribute (attributes cfg) response)"

text \<open>Lines 265-333, for a response that is a document.\<close>

definition load_handler :: "'u PJAX \<Rightarrow> document \<Rightarrow> 'u window \<Rightarrow> 'u window completion" where
  "load_handler this response w =
     (case replace_fields (replace this) response (document w) of
        Throw e d \<Rightarrow> Throw e (w\<lparr> document := d \<rparr>)
      | Normal d2 \<Rightarrow>
     (let response1 = addLinkEvent (querySelectorAll (container this @ links this) response) response
      in case swap_container (container this) response1 d2 of
           Throw e (d, r) \<Rightarrow> Throw e (w\<lparr> document := d \<rparr>)
         | Normal (d3, response2) \<Rightarrow>
             (let scripts = querySelectorAll (container this @ [[Tag ''script'']]) response2;
                  w3 = run_scripts scripts (w\<lparr> document := d3 \<rparr>)
              in if afterLoad this = ExecQueue then execQueue (Instance this) w3 else Normal w3)))"

text \<open>Line 381-383: the instance the file creates, and the push onto its configuration.\<close>

definition window_pjax :: "'u PJAX" where
  "window_pjax =
     (let pjax = constructor None None None
      in pjax\<lparr> replace := (replace pjax)\<lparr> textContent := textContent (replace pjax) @ [[[Tag ''h1'']]] \<rparr> \<rparr>)"

subsection \<open>The load handler of the object literal \<^verbatim>\<open>pjax\<close>\<close>

text \<open>The object literal: its container and its \<^verbatim>\<open>funQueue\<close>, an object whose properties
  are listed here in the order \<^verbatim>\<open>for ... in\<close> visits them.\<close>

record 'u pjax_object =
  pjax_container :: selector
  funQueue :: "(string \<times> 'u jsval) list"
  pjax_afterLoad :: hook

text \<open>Lines 55-57 and 62-67. The callback is a plain function, so \<^verbatim>\<open>this\<close> in it is the
  window and \<^verbatim>\<open>this.response\<close> is \<^verbatim>\<open>undefined\<close>: the call on it throws.\<close>

definition pjax_callback :: "path \<times> node \<Rightarrow> nat \<Rightarrow> document \<Rightarrow> document completion" where
  "pjax_callback el key d = Throw TypeError d"

fun pjax_replace :: "selector list \<Rightarrow> document \<Rightarrow> document completion" where
  "pjax_replace [] d = Normal d"
| "pjax_replace (sel # rest) d =
     and_then (forEach pjax_callback 0 (querySelectorAll sel d) d) (pjax_replace rest)"

text \<open>Lines 92-108.\<close>

definition pjax_execQueue_entry :: "'u jsval \<Rightarrow> 'u window \<Rightarrow> 'u window" where
  "pjax_execQueue_entry func w =
     (case func of
        JFunction i body \<Rightarrow>
          (case body (user w) of
             (u, None) \<Rightarrow> w\<lparr> user := u, invoked := invoked w @ [i] \<rparr>
           | (u, Some e) \<Rightarrow> w\<lparr> user := u, invoked := invoked w @ [i], console := console w @ [Logged e] \<rparr>)
      | _ \<Rightarrow> w)"

fun pjax_execQueue :: "(string \<times> 'u jsval) list \<Rightarrow> 'u window \<Rightarrow> 'u window" where
  "pjax_execQueue [] w = w"
| "pjax_execQueue (prop # rest) w = pjax_execQueue rest (pjax_execQueue_entry (snd prop) w)"

text \<open>Lines 41-85: the scripts are collected at line 70, before the swap of lines 72-74.\<close>

definition pjax_load_handler :: "'u pjax_object \<Rightarrow> document \<Rightarrow> 'u window \<Rightarrow> 'u window completion" where
  "pjax_load_handler self response w =
     (case and_then (pjax_replace [[[Tag ''title'']], [[Class ''header-title''], [Tag ''h1'']]] (document w))
                    (pjax_replace [[[Tag ''meta'', AttrEnds ''name'' ''description'']]]) of
        Throw e d \<Rightarrow> Throw e (w\<lparr> document := d \<rparr>)
      | Normal d2 \<Rightarrow>
     (let scripts = querySelectorAll (pjax_container self @ [[Tag ''script'']]) response
      in case swap_container (pjax_container self) response d2 of
           Throw e (d, r) \<Rightarrow> Throw e (w\<lparr> document := d \<rparr>)
         | Normal (d3, response2) \<Rightarrow>
             (let w3 = run_scripts scripts (w\<lparr> document := d3 \<rparr>)
              in if pjax_afterLoad self = ExecQueue
                 then Normal (pjax_execQueue (funQueue self) w3) else Normal w3)))"

subsection \<open>Events\<close>

text \<open>What the page and the browser do to the engine, one event at a time. An exception
  that leaves a handler is reported by the browser and goes no further.\<close>

datatype 'u event =
    Call_setup
  | Call_onload "'u jsval"
  | Window_load
  | Popstate
  | Response_loaded document

fun report :: "'u window completion \<Rightarrow> 'u window" where
  "report (Normal w) = w"
| "report (Throw e w) = w\<lparr> uncaught := uncaught w @ [e] \<rparr>"

fun deliver :: "'u event \<Rightarrow> 'u PJAX \<times> 'u window \<Rightarrow> 'u PJAX \<times> 'u window" where
  "deliver Call_setup (this, w) = (this, report (PJAX_setup this w))"
| "deliver (Call_onload callback) (this, w) = onload callback this w"
| "deliver Window_load (this, w) =
     (this, case onload_handler w of Unset \<Rightarrow> w | ExecQueue \<Rightarrow> report (execQueue Window w))"
| "deliver Popstate (this, w) = (this, if onpopstate w then popstate_handler w else w)"
| "deliver (Response_loaded response) (this, w) = (this, report (load_handler this response w))"

fun deliver_all :: "'u event list \<Rightarrow> 'u PJAX \<times> 'u window \<Rightarrow> 'u PJAX \<times> 'u window" where
  "deliver_all [] s = s"
| "deliver_all (ev # evs) s = deliver_all evs (deliver ev s)"

subsection \<open>Example pages\<close>

text \<open>A window that has just parsed its document, in a browser with the history interface:
  nothing pushed, requested, evaluated, invoked or logged yet, no handler installed.\<close>

definition fresh_window :: "document \<Rightarrow> 'u \<Rightarrow> 'u window" where
  "fresh_window d u =
     \<lparr> document = d, location_href = ''https://lopeax.github.io/'', pushState_supported = True,
       pushed = [], onpopstate = False, onload_handler = Unset, requested = [], evaluated = [],
       console = [], invoked = [], uncaught = [], user = u \<rparr>"

definition page :: "node list \<Rightarrow> node list \<Rightarrow> document" where
  "page head_nodes body_nodes =
     [Element ''html'' [] 0 [Element ''head'' [] 0 head_nodes, Element ''body'' [] 0 body_nodes]]"

text \<open>The scenario of the specification: the container holds A in the live document, and B
  followed by an inline script in the fetched one.\<close>

definition scenario_live :: document where
  "scenario_live = page [] [Element ''div'' [(''class'', ''body'')] 0 [Text ''A'']]"

definition scenario_fetched :: document where
  "scenario_fetched =
     page [] [Element ''div'' [(''class'', ''body'')] 0
                [Text ''B'', Element ''script'' [] 0 [Text ''window.__x=1'']]]"

text \<open>A live page with no element of class body.\<close>

definition no_container_live :: document where
  "no_container_live = page [] [Element ''div'' [(''class'', ''main'')] 0 [Text ''A'']]"

text \<open>One meta element that two entries of the default configuration match, at position 0 of
  both in the live page, and at position 0 of the first but position 1 of the second in the
  fetched page.\<close>

definition overlap_live :: document where
  "overlap_live =
     page [Element ''meta'' [(''name'', ''title''), (''property'', ''og:title''), (''content'', ''Old'')] 0 []]
          [Element ''div'' [(''class'', ''body'')] 0 [Text ''A'']]"


text \<open>A live page with two headings and two Open Graph meta elements, and a fetched page
  with one of each.\<close>

definition longer_live :: document where
  "longer_live =
     page [Element ''title'' [] 0 [Text ''Old''],
           Element ''meta'' [(''property'', ''og:type''), (''content'', ''article'')] 0 [],
           Element ''meta'' [(''property'', ''og:site''), (''content'', ''here'')] 0 []]
          [Element ''h1'' [] 0 [Text ''First''], Element ''h1'' [] 0 [Text ''Second''],
           Element ''div'' [(''class'', ''body'')] 0 [Text ''A'']]"

definition shorter_fetched :: document where
  "shorter_fetched =
     page [Element ''title'' [] 0 [Text ''New''],
           Element ''meta'' [(''property'', ''og:type''), (''content'', ''website'')] 0 []]
          [Element ''h1'' [] 0 [Text ''Only''],
           Element ''div'' [(''class'', ''body'')] 0 [Text ''B'']]"

text \<open>A live page in which an element of class note holds another one, and a fetched page
  with a single element of that class.\<close>

definition nested_live :: document where
  "nested_live =
     page [] [Element ''div'' [(''class'', ''note'')] 0
                [Text ''outer'', Element ''span'' [(''class'', ''note'')] 0 [Text ''inner'']],
              Element ''div'' [(''class'', ''body'')] 0 [Text ''A'']]"

definition one_note_fetched :: document where
  "one_note_fetched =
     page [] [Element ''div'' [(''class'', ''note'')] 0 [Text ''new''],
              Element ''div'' [(''class'', ''body'')] 0 [Text ''B'']]"

text \<open>A fetched page with one Open Graph meta element and no meta element named title.\<close>

definition og_only_fetched :: document where
  "og_only_fetched =
     page [Element ''meta'' [(''property'', ''og:type''), (''content'', ''website'')] 0 []]
          [Element ''div'' [(''class'', ''body'')] 0 [Text ''B'']]"

subsection \<open>Notions used in the proofs\<close>

text \<open>A loop whose callback cannot throw, as a plain iteration.\<close>

fun apply_each :: "(path \<times> node \<Rightarrow> nat \<Rightarrow> 's \<Rightarrow> 's) \<Rightarrow> nat \<Rightarrow> NodeList \<Rightarrow> 's \<Rightarrow> 's" where
  "apply_each g key [] s = s"
| "apply_each g key (element # rest) s = apply_each g (Suc key) rest (g element key s)"

text \<open>What the two callbacks do to the document; they are shown below to complete normally
  with these results.\<close>

definition textContent_step :: "selector \<Rightarrow> document \<Rightarrow> path \<times> node \<Rightarrow> nat \<Rightarrow> document \<Rightarrow> document" where
  "textContent_step sel response element key d =
     (if key < length (querySelectorAll sel response)
      then map_at (fst element)
             (set_textContent (get_textContent (snd (querySelectorAll sel response ! key)))) d
      else d)"

definition attribute_step ::
  "attribute_entry \<Rightarrow> document \<Rightarrow> path \<times> node \<Rightarrow> nat \<Rightarrow> document \<Rightarrow> document" where
  "attribute_step entry response element key d =
     (if key < length (querySelectorAll (selector entry) response)
      then map_at (fst element)
             (setAttribute (attribute entry)
                (getAttribute (attribute entry) (snd (querySelectorAll (selector entry) response ! key)))) d
      else d)"

text \<open>Whether a reference leads to an element of the document.\<close>

definition element_at :: "path \<Rightarrow> document \<Rightarrow> bool" where
  "element_at p d = (case node_at p d of None \<Rightarrow> False | Some n \<Rightarrow> is_element n)"

text \<open>Document order on references: no later one is an ancestor of, or equal to, an earlier one.\<close>

definition document_order :: "path list \<Rightarrow> bool" where
  "document_order ps = sorted_wrt (\<lambda>p q. \<not> prefix q p) ps"

section \<open>The load queue\<close>


lemma invoked_execQueue_entry:
  "invoked (execQueue_entry f w) = invoked w @ map function_id (filter is_function [f])"
  by (cases f) (simp_all add: execQueue_entry_def split: prod.splits option.splits)

lemma invoked_execQueue_forEach:
  "invoked (execQueue_forEach q w) = invoked w @ map function_id (filter is_function q)"
proof (induction q arbitrary: w)
  case Nil
  show ?case by simp
next
  case (Cons f q)
  have "invoked (execQueue_forEach (f # q) w)
        = invoked (execQueue_entry f w) @ map function_id (filter is_function q)"
    using Cons.IH [of "execQueue_entry f w"] by simp
  then show ?case by (simp add: invoked_execQueue_entry)
qed



lemma unchanged_execQueue_entry:
  "document (execQueue_entry f w) = document w"
  "pushed (execQueue_entry f w) = pushed w"
  "requested (execQueue_entry f w) = requested w"
  "evaluated (execQueue_entry f w) = evaluated w"
  "uncaught (execQueue_entry f w) = uncaught w"
  "onpopstate (execQueue_entry f w) = onpopstate w"
  by (cases f; simp add: execQueue_entry_def split: prod.splits option.splits)+

lemma unchanged_execQueue_forEach:
  "document (execQueue_forEach q w) = document w"
  "pushed (execQueue_forEach q w) = pushed w"
  "requested (execQueue_forEach q w) = requested w"
  "evaluated (execQueue_forEach q w) = evaluated w"
  "uncaught (execQueue_forEach q w) = uncaught w"
  "onpopstate (execQueue_forEach q w) = onpopstate w"
  by (induction q arbitrary: w; simp add: unchanged_execQueue_entry)+

lemma unchanged_run_scripts:
  "document (run_scripts xs w) = document w"
  "pushed (run_scripts xs w) = pushed w"
  "requested (run_scripts xs w) = requested w"
  "invoked (run_scripts xs w) = invoked w"
  "console (run_scripts xs w) = console w"
  "uncaught (run_scripts xs w) = uncaught w"
  by (induction xs arbitrary: w; simp)+

lemma queue_onload: "queue (fst (onload c this w)) = queue this @ filter is_function [c]"
  by (simp add: onload_def Let_def)

lemma queue_deliver_onloads:
  "queue (fst (deliver_all (map Call_onload cs) (this, w))) = queue this @ filter is_function cs"
proof (induction cs arbitrary: this w)
  case Nil
  show ?case by simp
next
  case (Cons c cs)
  obtain this1 w1 where s: "onload c this w = (this1, w1)" by (cases "onload c this w")
  have "queue this1 = queue this @ filter is_function [c]"
    using queue_onload [of c this w] s by simp
  then show ?case using Cons.IH [of this1 w1] s by simp
qed

lemma queue_deliver: "prefix (queue this) (queue (fst (deliver ev (this, w))))"
  by (cases ev) (simp_all add: onload_def Let_def)

lemma user_execQueue_entry:
  "user (execQueue_entry f w) = (if is_function f then fst (function_body f (user w)) else user w)"
  by (cases f) (simp_all add: execQueue_entry_def split: prod.splits option.splits)

lemma user_execQueue_forEach:
  "user (execQueue_forEach q w)
   = foldl (\<lambda>u f. fst (function_body f u)) (user w) (filter is_function q)"
  by (induction q arbitrary: w) (simp_all add: user_execQueue_entry)

text \<open>
  C5. Whatever is passed to \<^verbatim>\<open>onload\<close>, in whatever sequence: the queue afterwards is the old
  queue followed by the functions passed, in the order they were passed, a function passed
  twice standing twice; a replay on the instance completes normally, records exactly the
  functions of the queue as invoked, in that order, and leaves the user state that running
  their bodies one after the other in that order gives; a function registered twice is run
  twice, its second run starting from the state its first run left; and no event ever
  shortens or reorders the queue, the old queue stays a prefix of the new one.
\<close>

theorem replay_follows_registration_order:
  "queue (fst (deliver_all (map Call_onload cs) (this, w))) = queue this @ filter is_function cs
   \<and> (\<exists>w'. execQueue (Instance (fst (deliver_all (map Call_onload cs) (this, w)))) w1 = Normal w'
          \<and> invoked w' = invoked w1 @ map function_id (filter is_function (queue this @ cs))
          \<and> user w' = foldl (\<lambda>u f. fst (function_body f u)) (user w1)
                          (filter is_function (queue this @ cs)))
   \<and> execQueue (Instance (fst (deliver_all (map Call_onload [JFunction i body, JFunction i body])
                                   (constructor c l r, w)))) w1
       = Normal (execQueue_forEach [JFunction i body, JFunction i body] w1)
   \<and> invoked (execQueue_forEach [JFunction i body, JFunction i body] w1) = invoked w1 @ [i, i]
   \<and> user (execQueue_forEach [JFunction i body, JFunction i body] w1)
       = fst (body (fst (body (user w1))))
   \<and> prefix (queue this) (queue (fst (deliver ev (this, w))))"
proof -
  have twice: "queue (fst (deliver_all (map Call_onload [JFunction i body, JFunction i body])
                             (constructor c l r, w))) = [JFunction i body, JFunction i body]"
    using queue_deliver_onloads [of "[JFunction i body, JFunction i body]" "constructor c l r" w]
    by (simp add: constructor_def)
  have calls: "invoked (execQueue_forEach [JFunction i body, JFunction i body] w1) = invoked w1 @ [i, i]"
    using invoked_execQueue_forEach [of "[JFunction i body, JFunction i body]" w1] by simp
  have runs: "user (execQueue_forEach [JFunction i body, JFunction i body] w1)
       = fst (body (fst (body (user w1))))"
    using user_execQueue_forEach [of "[JFunction i body, JFunction i body]" w1] by simp
  have general: "\<exists>w'. execQueue (Instance (fst (deliver_all (map Call_onload cs) (this, w)))) w1 = Normal w'
          \<and> invoked w' = invoked w1 @ map function_id (filter is_function (queue this @ cs))
          \<and> user w' = foldl (\<lambda>u f. fst (function_body f u)) (user w1)
                          (filter is_function (queue this @ cs))"
    by (simp add: execQueue_def queue_deliver_onloads invoked_execQueue_forEach
        user_execQueue_forEach)
  have first: "queue (fst (deliver_all (map Call_onload cs) (this, w))) = queue this @ filter is_function cs"
    by (rule queue_deliver_onloads)
  have same: "execQueue (Instance (fst (deliver_all (map Call_onload [JFunction i body, JFunction i body])
                                   (constructor c l r, w)))) w1
       = Normal (execQueue_forEach [JFunction i body, JFunction i body] w1)"
    using twice by (simp only: execQueue_def receiver.case)
  show ?thesis
    using first general same calls runs queue_deliver [of this ev w] by blast
qed



text \<open>
  C10. A call of \<^verbatim>\<open>onload\<close> with an argument that is not a function leaves the queue as it
  was, so a replay after it does what a replay before it would have done; a replay on the
  instance never throws, and it invokes exactly the functions of the queue, in order, passing
  over every entry that is not a function. (\<^verbatim>\<open>onload\<close> itself has no operation that can throw.)
\<close>

theorem onload_ignores_non_function:
  assumes "\<not> is_function v"
  shows "queue (fst (onload v this w)) = queue this
       \<and> execQueue (Instance (fst (onload v this w))) w1 = execQueue (Instance this) w1
       \<and> thrown (execQueue (Instance this) w1) = None
       \<and> invoked (state_of (execQueue (Instance this) w1))
           = invoked w1 @ map function_id (filter is_function (queue this))"
  using assms by (simp add: onload_def Let_def execQueue_def invoked_execQueue_forEach)

theorem onload_ignores_non_function_witness:
  "queue (fst (onload (JNum 5) ((constructor None None None)
             \<lparr> queue := [JFunction 1 (\<lambda>u. (u, None)), JStr ''x'', JFunction 2 (\<lambda>u. (u, None))] \<rparr>)
             (fresh_window scenario_live ())))
     = [JFunction 1 (\<lambda>u. (u, None)), JStr ''x'', JFunction 2 (\<lambda>u. (u, None))]
   \<and> thrown (execQueue (Instance ((constructor None None None)
             \<lparr> queue := [JFunction 1 (\<lambda>u. (u, None)), JStr ''x'', JFunction 2 (\<lambda>u. (u, None))] \<rparr>))
             (fresh_window scenario_live ())) = None
   \<and> invoked (state_of (execQueue (Instance ((constructor None None None)
             \<lparr> queue := [JFunction 1 (\<lambda>u. (u, None)), JStr ''x'', JFunction 2 (\<lambda>u. (u, None))] \<rparr>))
             (fresh_window scenario_live ()))) = [1, 2]"
proof -
  let ?engine = "(constructor None None None)
             \<lparr> queue := [JFunction 1 (\<lambda>u::unit. (u, None)), JStr ''x'', JFunction 2 (\<lambda>u. (u, None))] \<rparr>"
  have h: "\<not> is_function (JNum 5 :: unit jsval)" by simp
  show ?thesis
    using onload_ignores_non_function [OF h, of ?engine "fresh_window scenario_live ()"
        "fresh_window scenario_live ()"]
    by (simp add: fresh_window_def)
qed

section \<open>History\<close>

lemma pushed_load_handler: "pushed (state_of (load_handler this response w)) = pushed w"
  by (simp add: load_handler_def Let_def execQueue_def unchanged_run_scripts unchanged_execQueue_forEach
      split: completion.splits prod.splits)

lemma pushed_report: "pushed (report c) = pushed (state_of c)"
  by (cases c) simp_all

text \<open>
  C7. In a browser with the history interface, \<^verbatim>\<open>setup\<close> completes and installs the popstate
  handler; a popstate event then sends one request, for the current location of the window,
  changes nothing else and pushes no history entry; and the load handler that patches the
  page when the response arrives pushes none either.
\<close>

theorem popstate_refetches_without_push:
  assumes "pushState_supported w"
  shows "(\<exists>w1. PJAX_setup this w = Normal w1 \<and> onpopstate w1
           \<and> deliver Popstate (this, w1) = (this, w1\<lparr> requested := requested w1 @ [location_href w1] \<rparr>)
           \<and> pushed (snd (deliver Popstate (this, w1))) = pushed w)
       \<and> pushed (snd (deliver (Response_loaded response) (this, w2))) = pushed w2"
  using assms
  by (simp add: PJAX_setup_def Let_def execQueue_def unchanged_execQueue_forEach
      popstate_handler_def request_def pushed_report pushed_load_handler)

theorem popstate_refetches_without_push_witness:
  "pushState_supported (fresh_window scenario_live ())
   \<and> requested (snd (deliver_all [Call_setup, Popstate] (window_pjax, fresh_window scenario_live ())))
       = [''https://lopeax.github.io/'']
   \<and> pushed (snd (deliver_all [Call_setup, Popstate, Response_loaded scenario_fetched]
                     (window_pjax, fresh_window scenario_live ()))) = []"
proof -
  have h: "pushState_supported (fresh_window scenario_live ())" by (simp add: fresh_window_def)
  obtain w1 where w1: "PJAX_setup window_pjax (fresh_window scenario_live ()) = Normal w1"
    and req: "deliver Popstate (window_pjax, w1)
              = (window_pjax, w1\<lparr> requested := requested w1 @ [location_href w1] \<rparr>)"
    and push: "pushed (snd (deliver Popstate (window_pjax, w1))) = pushed (fresh_window scenario_live ())"
    using popstate_refetches_without_push [OF h, of window_pjax] by blast
  have later: "pushed (snd (deliver (Response_loaded scenario_fetched) (window_pjax, w2))) = pushed w2" for w2 :: "unit window"
    using popstate_refetches_without_push [OF h, of window_pjax scenario_fetched w2] by blast
  have same: "requested w1 = [] \<and> location_href w1 = ''https://lopeax.github.io/''"
    using w1 by (auto simp add: PJAX_setup_def Let_def execQueue_def window_pjax_def constructor_def
        fresh_window_def)
  show ?thesis
    using h w1 req push same later [of "snd (deliver Popstate (window_pjax, w1))"]
    by (simp add: fresh_window_def)
qed

section \<open>The replace configuration\<close>

lemma engine_deliver:
  "replace (fst (deliver ev (this, w))) = replace this"
  "container (fst (deliver ev (this, w))) = container this"
  "links (fst (deliver ev (this, w))) = links this"
  by (cases ev; simp add: onload_def Let_def)+

text \<open>
  C8, as the code has it. No method of the class and no handler it installs changes the
  configuration: after any sequence of calls of \<^verbatim>\<open>setup\<close> and \<^verbatim>\<open>onload\<close>, load events,
  popstate events and arriving responses, the instance has the replace configuration, the
  container and the link selector it had before. The file itself, though, pushes the selector
  h1 onto the text selectors of its instance after constructing it, so that instance copies
  the text of title and h1, with the attribute entries of the default.
\<close>

theorem replace_fixed_by_methods:
  "replace (fst (deliver_all evs (this, w))) = replace this
   \<and> container (fst (deliver_all evs (this, w))) = container this
   \<and> links (fst (deliver_all evs (this, w))) = links this
   \<and> replace (window_pjax :: 'u PJAX)
       = \<lparr> textContent = [[[Tag ''title'']], [[Tag ''h1'']]], attributes = attributes DEFAULT_REPLACE \<rparr>"
proof -
  have "replace (fst (deliver_all evs (this, w))) = replace this
   \<and> container (fst (deliver_all evs (this, w))) = container this
   \<and> links (fst (deliver_all evs (this, w))) = links this"
  proof (induction evs arbitrary: this w)
    case Nil
    show ?case by simp
  next
    case (Cons ev evs)
    obtain this1 w1 where s: "deliver ev (this, w) = (this1, w1)" by (cases "deliver ev (this, w)")
    have "replace this1 = replace this" "container this1 = container this" "links this1 = links this"
      using engine_deliver [of ev this w] s by simp_all
    then show ?case using Cons.IH [of this1 w1] s by simp
  qed
  moreover have "replace (window_pjax :: 'u PJAX)
       = \<lparr> textContent = [[[Tag ''title'']], [[Tag ''h1'']]], attributes = attributes DEFAULT_REPLACE \<rparr>"
    by (simp add: window_pjax_def constructor_def DEFAULT_REPLACE_def Let_def)
  ultimately show ?thesis by blast
qed

text \<open>The configuration of the instance of the file is not the one its constructor gave it.\<close>

theorem replace_changed_after_construction:
  "textContent (replace (window_pjax :: unit PJAX))
   \<noteq> textContent (replace (constructor None None None :: unit PJAX))"
  by (simp add: window_pjax_def constructor_def DEFAULT_REPLACE_def Let_def)

section \<open>Replay at the first page load\<close>

text \<open>Registration first, then \<^verbatim>\<open>setup\<close>, then the load event: the callback is invoked once, by
  \<^verbatim>\<open>setup\<close>, and the handler of the load event throws.\<close>

lemma onload_setup_load:
  assumes "pushState_supported w"
  shows "invoked (snd (deliver_all [Call_onload (JFunction i body), Call_setup, Window_load]
                         (constructor c l r, w))) = invoked w @ [i]
       \<and> uncaught (snd (deliver_all [Call_onload (JFunction i body), Call_setup, Window_load]
                         (constructor c l r, w))) = uncaught w @ [TypeError]"
  using assms
  by (simp add: PJAX_setup_def Let_def execQueue_def constructor_def onload_def execQueue_entry_def
      split: prod.splits option.splits)

text \<open>After a pass that completes, the queue has been replayed once if \<^verbatim>\<open>onload\<close> was ever
  called, and not at all otherwise.\<close>

lemma load_handler_replays_once:
  assumes "load_handler this response w = Normal w'"
  shows "invoked w' = invoked w @ (if afterLoad this = ExecQueue
                                   then map function_id (filter is_function (queue this)) else [])"
  using assms
  by (auto simp add: load_handler_def Let_def execQueue_def unchanged_run_scripts
      invoked_execQueue_forEach split: completion.splits prod.splits if_splits)

text \<open>
  C9, at the input where the code departs from it. On a fresh instance, \<^verbatim>\<open>setup\<close> first, then
  the registration of a callback, then the load event of the window: the callback is never
  invoked. The replay of \<^verbatim>\<open>setup\<close> ran on the empty queue, and the handler stored in
  \<^verbatim>\<open>window.onload\<close> is \<^verbatim>\<open>execQueue\<close> without its receiver, which throws a TypeError when the
  browser calls it.
\<close>

theorem setup_onload_load_never_invokes:
  "invoked (snd (deliver_all [Call_setup, Call_onload (JFunction i body), Window_load]
                   (constructor c l r, w))) = invoked w
   \<and> uncaught (snd (deliver_all [Call_setup, Call_onload (JFunction i body), Window_load]
                   (constructor c l r, w))) = uncaught w @ [TypeError]"
  by (simp add: PJAX_setup_def Let_def execQueue_def constructor_def onload_def)

section \<open>References into a document\<close>

lemma list_update_nth_eq: "ns ! k = x \<Longrightarrow> ns[k := x] = ns"
  by (metis list_update_id)

lemma path_cases:
  obtains "q = []" | k where "q = [k]" | k j p where "q = k # j # p"
  by (cases q; cases "tl q") auto

lemma length_map_at [simp]: "length (map_at p f ns) = length ns"
  by (induction p f ns rule: map_at.induct) (simp_all split: node.splits)

lemma map_at_absent: "node_at q d = None \<Longrightarrow> map_at q f d = d"
  by (induction q d rule: node_at.induct) (auto split: node.splits if_splits simp: list_update_nth_eq)

lemma map_at_fixed: "node_at q d = Some n \<Longrightarrow> f n = n \<Longrightarrow> map_at q f d = d"
  by (induction q d rule: node_at.induct) (auto split: node.splits if_splits simp: list_update_nth_eq)

lemma node_at_map_at_same: "node_at p (map_at p f d) = map_option f (node_at p d)"
  by (induction p d rule: node_at.induct) (auto split: node.splits if_splits)

text \<open>A write through one reference is not seen through a reference to another branch.\<close>

lemma node_at_map_at_other:
  "\<not> prefix p q \<Longrightarrow> \<not> prefix q p \<Longrightarrow> node_at q (map_at p f d) = node_at q d"
proof (induction p f d arbitrary: q rule: map_at.induct)
  case (1 f ns)
  then show ?case by simp
next
  case (2 k f ns)
  then show ?case
    by (cases q rule: path_cases) (auto split: node.splits)
next
  case (3 k j p f ns)
  show ?case
  proof (cases q rule: path_cases)
    case 1
    then show ?thesis by simp
  next
    case (2 k')
    then show ?thesis using "3.prems" by (auto split: node.splits)
  next
    case (3 k' j' p')
    show ?thesis
    proof (cases "k' = k")
      case False
      then show ?thesis using 3 by (auto split: node.splits)
    next
      case True
      then show ?thesis using 3 "3.prems" "3.IH" [of _ _ _ _ "j' # p'"]
        by (auto split: node.splits)
    qed
  qed
qed

lemma node_at_text_only:
  assumes "list_all (\<lambda>c. \<not> is_element c) cs" and "node_at q cs = Some n"
  shows "\<not> is_element n"
proof (cases q rule: path_cases)
  case 1
  then show ?thesis using assms by simp
next
  case (2 k)
  then show ?thesis using assms by (auto simp: list_all_length split: if_splits)
next
  case (3 k j p)
  then show ?thesis using assms by (auto simp: list_all_length split: if_splits node.splits)
qed

text \<open>Below an element whose children are text only, no reference leads to an element.\<close>

lemma node_at_below_text_only:
  "node_at p d = Some (Element t a l cs) \<Longrightarrow> list_all (\<lambda>c. \<not> is_element c) cs \<Longrightarrow> strict_prefix p q
   \<Longrightarrow> node_at q d = Some n \<Longrightarrow> \<not> is_element n"
proof (induction p d arbitrary: q rule: node_at.induct)
  case (1 ns)
  then show ?case by simp
next
  case (2 k ns)
  then show ?case
    by (cases q rule: path_cases) (auto split: if_splits node.splits dest: node_at_text_only)
next
  case (3 k j r ns)
  show ?case
  proof (cases q rule: path_cases)
    case 1
    then show ?thesis using "3.prems" by simp
  next
    case (2 k')
    then show ?thesis using "3.prems" by auto
  next
    case (3 k' j' r')
    then have k: "k' = k" and sp: "strict_prefix (j # r) (j' # r')" using "3.prems"(3) by auto
    from "3.prems"(1) obtain t0 a0 l0 cs0 where
      nk: "k < length ns" "ns ! k = Element t0 a0 l0 cs0" and at: "node_at (j # r) cs0 = Some (Element t a l cs)"
      by (auto split: if_splits node.splits)
    have "node_at (j' # r') cs0 = Some n" using "3.prems"(4) 3 k nk by simp
    then show ?thesis using "3.IH" [OF nk(1) nk(2) at "3.prems"(2) sp] by simp
  qed
qed

lemma set_textContent_non_element: "\<not> is_element n \<Longrightarrow> set_textContent s n = n"
  by (cases n) simp_all

text \<open>So an assignment to \<^verbatim>\<open>textContent\<close> through a reference into the old content of an
  element whose text was assigned before changes nothing in the document.\<close>

lemma map_at_below_text_only:
  assumes "node_at p d = Some (Element t a l cs)" and "list_all (\<lambda>c. \<not> is_element c) cs"
    and "strict_prefix p q"
  shows "map_at q (set_textContent s) d = d"
proof (cases "node_at q d")
  case None
  then show ?thesis by (rule map_at_absent)
next
  case (Some n)
  then have "\<not> is_element n" using assms by (rule node_at_below_text_only [rotated 3])
  then have "set_textContent s n = n" by (rule set_textContent_non_element)
  with Some show ?thesis by (rule map_at_fixed)
qed

lemma node_at_under_setAttribute:
  "k < length ns \<Longrightarrow>
   node_at (k # j # p) (ns[k := setAttribute a v (ns ! k)]) = node_at (k # j # p) ns"
  by (cases "ns ! k") simp_all

text \<open>\<^verbatim>\<open>setAttribute\<close> on an element leaves everything below it as it is.\<close>

lemma node_at_map_at_setAttribute_above:
  "strict_prefix q p \<Longrightarrow> node_at p (map_at q (setAttribute a v) d) = node_at p d"
proof (induction q d arbitrary: p rule: node_at.induct)
  case (1 ns)
  then show ?case by simp
next
  case (2 k ns)
  show ?case
  proof (cases p rule: path_cases)
    case 1
    then show ?thesis by simp
  next
    case (2 k')
    then show ?thesis using "2.prems" by auto
  next
    case (3 k' j' p')
    then have k: "k' = k" using "2.prems" by auto
    show ?thesis using node_at_under_setAttribute 3 k by simp
  qed
next
  case (3 k j q ns)
  show ?case
  proof (cases p rule: path_cases)
    case 1
    then show ?thesis by simp
  next
    case (2 k')
    then show ?thesis using "3.prems" by auto
  next
    case (3 k' j' p')
    then have k: "k' = k" and sp: "strict_prefix (j # q) (j' # p')" using "3.prems" by auto
    show ?thesis using 3 k sp "3.IH" by (auto split: node.splits)
  qed
qed

text \<open>A write below an element does not change the attributes of the element.\<close>

lemma getAttribute_map_at_below:
  "strict_prefix p q \<Longrightarrow>
   map_option (getAttribute b) (node_at p (map_at q f d)) = map_option (getAttribute b) (node_at p d)"
proof (induction p d arbitrary: q rule: node_at.induct)
  case (1 ns)
  then show ?case by simp
next
  case (2 k ns)
  show ?case
  proof (cases q rule: path_cases)
    case 1
    then show ?thesis using "2.prems" by simp
  next
    case (2 k')
    then show ?thesis using "2.prems" by auto
  next
    case (3 k' j' q')
    then have k: "k' = k" using "2.prems" by auto
    show ?thesis using 3 k by (auto split: node.splits)
  qed
next
  case (3 k j r ns)
  show ?case
  proof (cases q rule: path_cases)
    case 1
    then show ?thesis using "3.prems" by simp
  next
    case (2 k')
    then show ?thesis using "3.prems" by auto
  next
    case (3 k' j' q')
    then have k: "k' = k" and sp: "strict_prefix (j # r) (j' # q')" using "3.prems" by auto
    show ?thesis using 3 k sp "3.IH" by (auto split: node.splits)
  qed
qed

lemma node_at_map_at_setAttribute_not_below:
  assumes "\<not> prefix p q"
  shows "node_at p (map_at q (setAttribute a v) d) = node_at p d"
proof (cases "prefix q p")
  case True
  then have "strict_prefix q p" using assms by (auto simp: strict_prefix_def)
  then show ?thesis by (rule node_at_map_at_setAttribute_above)
next
  case False
  then show ?thesis using assms by (simp add: node_at_map_at_other)
qed

lemma getAttribute_map_at_setAttribute_other:
  assumes "p \<noteq> q"
  shows "map_option (getAttribute b) (node_at p (map_at q (setAttribute a v) d))
         = map_option (getAttribute b) (node_at p d)"
proof (cases "prefix p q")
  case True
  then have "strict_prefix p q" using assms by (auto simp: strict_prefix_def)
  then show ?thesis by (rule getAttribute_map_at_below)
next
  case False
  then show ?thesis by (simp add: node_at_map_at_setAttribute_not_below)
qed

lemma getAttribute_setAttribute:
  "is_element n \<Longrightarrow> getAttribute b (setAttribute a v n)
     = (if b = a then Some (to_string v) else getAttribute b n)"
  by (cases n) (simp_all add: update_conv')

lemma set_textContent_element:
  "is_element n \<Longrightarrow> \<exists>t a l cs. set_textContent s n = Element t a l cs \<and> list_all (\<lambda>c. \<not> is_element c) cs"
  by (cases n) simp_all


section \<open>What \<^verbatim>\<open>querySelectorAll\<close> returns\<close>

lemma node_at_Cons_nonempty:
  "p \<noteq> [] \<Longrightarrow> k < length ns \<Longrightarrow> ns ! k = Element t a l cs \<Longrightarrow> node_at (k # p) ns = node_at p cs"
  by (cases p) simp_all

lemma querySelectorAll_from_sound:
  "(p, n) \<in> set (querySelectorAll_from sel ancs k ns) \<Longrightarrow> k = length pre
   \<Longrightarrow> node_at p (pre @ ns) = Some n \<and> is_element n"
proof (induction sel ancs k ns arbitrary: pre p n rule: querySelectorAll_from.induct)
  case (1 sel ancs k)
  then show ?case by simp
next
  case (2 sel ancs k s ns)
  have "node_at p ((pre @ [Text s]) @ ns) = Some n \<and> is_element n"
    using "2.prems" by (intro "2.IH") simp_all
  then show ?case by simp
next
  case (3 sel ancs k t a l cs ns)
  let ?E = "Element t a l cs"
  from "3.prems"(1) consider
      (self) "p = [k]" "n = ?E"
    | (inner) p' where "p = k # p'" "(p', n) \<in> set (querySelectorAll_from sel (?E # ancs) 0 cs)"
    | (later) "(p, n) \<in> set (querySelectorAll_from sel ancs (Suc k) ns)"
    by (auto split: if_splits)
  then show ?case
  proof cases
    case self
    then show ?thesis using "3.prems"(2) by (simp add: nth_append)
  next
    case inner
    have at: "node_at p' ([] @ cs) = Some n \<and> is_element n"
      using inner(2) by (intro "3.IH"(1)) simp_all
    then have "p' \<noteq> []" by auto
    then have "node_at (k # p') (pre @ ?E # ns) = node_at p' cs"
      using "3.prems"(2) by (intro node_at_Cons_nonempty) (simp_all add: nth_append)
    then show ?thesis using at inner(1) by simp
  next
    case later
    have "node_at p ((pre @ [?E]) @ ns) = Some n \<and> is_element n"
      using later "3.prems"(2) by (intro "3.IH"(2)) simp_all
    then show ?thesis by simp
  qed
qed

lemma querySelectorAll_sound:
  "(p, n) \<in> set (querySelectorAll sel d) \<Longrightarrow> node_at p d = Some n \<and> is_element n"
  using querySelectorAll_from_sound [of p n sel "[]" 0 d "[]"] by (simp add: querySelectorAll_def)

lemma querySelectorAll_from_heads:
  "(p, n) \<in> set (querySelectorAll_from sel ancs k ns) \<Longrightarrow> p \<noteq> [] \<and> k \<le> hd p"
proof (induction sel ancs k ns arbitrary: p n rule: querySelectorAll_from.induct)
  case (1 sel ancs k)
  then show ?case by simp
next
  case (2 sel ancs k s ns)
  then show ?case by fastforce
next
  case (3 sel ancs k t a l cs ns)
  then show ?case by (fastforce split: if_splits)
qed

lemma querySelectorAll_from_order:
  "document_order (map fst (querySelectorAll_from sel ancs k ns))"
proof (induction sel ancs k ns rule: querySelectorAll_from.induct)
  case (1 sel ancs k)
  show ?case by (simp add: document_order_def)
next
  case (2 sel ancs k s ns)
  then show ?case by simp
next
  case (3 sel ancs k t a l cs ns)
  let ?E = "Element t a l cs"
  let ?inner = "querySelectorAll_from sel (?E # ancs) 0 cs"
  let ?later = "querySelectorAll_from sel ancs (Suc k) ns"
  have inner_ne: "\<And>p n. (p, n) \<in> set ?inner \<Longrightarrow> p \<noteq> []"
    using querySelectorAll_from_heads by blast
  have later_hd: "\<And>p n. (p, n) \<in> set ?later \<Longrightarrow> p \<noteq> [] \<and> Suc k \<le> hd p"
    using querySelectorAll_from_heads by blast
  have map_inner: "map fst (map (\<lambda>(p, n). (k # p, n)) ?inner) = map ((#) k) (map fst ?inner)"
    by (simp add: case_prod_unfold)
  have o1: "document_order (map ((#) k) (map fst ?inner))"
    using "3.IH"(1) by (simp add: document_order_def sorted_wrt_map)
  have o2: "document_order (map fst ?later)" by (rule "3.IH"(2))
  have cross1: "\<forall>p\<in>set (map ((#) k) (map fst ?inner)). \<not> prefix p [k]"
    using inner_ne by auto
  have cross2: "\<forall>q\<in>set (map fst ?later). \<not> prefix q [k] \<and> (\<forall>p\<in>set (map ((#) k) (map fst ?inner)). \<not> prefix q p)"
  proof
    fix q assume "q \<in> set (map fst ?later)"
    then obtain n where "(q, n) \<in> set ?later" by auto
    then have "q \<noteq> []" "Suc k \<le> hd q" using later_hd by blast+
    then obtain j q' where q: "q = j # q'" "Suc k \<le> j" by (cases q) auto
    then show "\<not> prefix q [k] \<and> (\<forall>p\<in>set (map ((#) k) (map fst ?inner)). \<not> prefix q p)"
      by auto
  qed
  show ?case
    using o1 o2 cross1 cross2
    by (auto simp add: document_order_def sorted_wrt_append map_inner simp del: map_map)
qed

lemma querySelectorAll_order: "document_order (map fst (querySelectorAll sel d))"
  by (simp add: querySelectorAll_def querySelectorAll_from_order)

section \<open>The replacement loops\<close>

lemma forEach_total:
  assumes "\<And>x k s. f x k s = Normal (g x k s)"
  shows "forEach f key xs s = Normal (apply_each g key xs s)"
  by (induction xs arbitrary: key s) (simp_all add: assms)

lemma textContent_callback_total:
  "textContent_callback sel response element key d = Normal (textContent_step sel response element key d)"
  by (cases "querySelectorAll sel response ! key")
     (simp add: textContent_callback_def textContent_step_def item_def Let_def)

lemma attribute_callback_total:
  "attribute_callback entry response element key d = Normal (attribute_step entry response element key d)"
  by (cases "querySelectorAll (selector entry) response ! key")
     (simp add: attribute_callback_def attribute_step_def item_def Let_def)

lemma replace_textContent_entry_total:
  "replace_textContent_entry sel response d
   = Normal (apply_each (textContent_step sel response) 0 (querySelectorAll sel d) d)"
  unfolding replace_textContent_entry_def
  by (rule forEach_total) (rule textContent_callback_total)

lemma replace_attribute_entry_total:
  "replace_attribute_entry entry response d
   = Normal (apply_each (attribute_step entry response) 0 (querySelectorAll (selector entry) d) d)"
  unfolding replace_attribute_entry_def
  by (rule forEach_total) (rule attribute_callback_total)

lemma replace_textContent_total: "\<exists>d'. replace_textContent sels response d = Normal d'"
  by (induction sels arbitrary: d) (simp_all add: replace_textContent_entry_total)

lemma replace_attribute_total: "\<exists>d'. replace_attribute es response d = Normal d'"
  by (induction es arbitrary: d) (simp_all add: replace_attribute_entry_total)

lemma replace_fields_total: "\<exists>d'. replace_fields cfg response d = Normal d'"
proof -
  obtain d1 where "replace_textContent (textContent cfg) response d = Normal d1"
    using replace_textContent_total by blast
  then show ?thesis
    using replace_attribute_total [of "attributes cfg" response d1] by (simp add: replace_fields_def)
qed

lemma apply_each_append:
  "apply_each g key (a @ b) s = apply_each g (key + length a) b (apply_each g key a s)"
  by (induction a arbitrary: key s) simp_all

lemma textContent_steps_beyond:
  "length (querySelectorAll sel response) \<le> key
   \<Longrightarrow> apply_each (textContent_step sel response) key xs d = d"
  by (induction xs arbitrary: key d) (simp_all add: textContent_step_def)

lemma attribute_steps_beyond:
  "length (querySelectorAll (selector entry) response) \<le> key
   \<Longrightarrow> apply_each (attribute_step entry response) key xs d = d"
  by (induction xs arbitrary: key d) (simp_all add: attribute_step_def)

lemma textContent_steps_elsewhere:
  "list_all (\<lambda>x. \<not> prefix (fst x) q \<and> \<not> prefix q (fst x)) (take (length (querySelectorAll sel response) - key) xs)
   \<Longrightarrow> node_at q (apply_each (textContent_step sel response) key xs d) = node_at q d"
proof (induction xs arbitrary: key d)
  case Nil
  show ?case by simp
next
  case (Cons x xs)
  let ?n = "length (querySelectorAll sel response)"
  show ?case
  proof (cases "key < ?n")
    case False
    then have "apply_each (textContent_step sel response) key (x # xs) d = d"
      by (intro textContent_steps_beyond) simp
    then show ?thesis by (simp only:)
  next
    case True
    then obtain m where m: "?n - key = Suc m" by (cases "?n - key") auto
    then have m': "?n - Suc key = m" by simp
    have x: "\<not> prefix (fst x) q" "\<not> prefix q (fst x)"
      and rest: "list_all (\<lambda>x. \<not> prefix (fst x) q \<and> \<not> prefix q (fst x)) (take m xs)"
      using Cons.prems m by simp_all
    have "node_at q (textContent_step sel response x key d) = node_at q d"
      using x by (simp add: textContent_step_def node_at_map_at_other)
    then show ?thesis using Cons.IH [of "Suc key" "textContent_step sel response x key d"] rest m'
      by simp
  qed
qed

lemma textContent_steps_after:
  assumes "node_at p d = Some (Element t a l cs)" and "list_all (\<lambda>c. \<not> is_element c) cs"
    and "list_all (\<lambda>x. \<not> prefix (fst x) p) xs"
  shows "node_at p (apply_each (textContent_step sel response) key xs d) = Some (Element t a l cs)"
  using assms
proof (induction xs arbitrary: key d)
  case Nil
  then show ?case by simp
next
  case (Cons x xs)
  have "node_at p (textContent_step sel response x key d) = Some (Element t a l cs)"
  proof (cases "prefix p (fst x)")
    case True
    then have "strict_prefix p (fst x)" using Cons.prems(3) by (auto simp: strict_prefix_def)
    then have "map_at (fst x) (set_textContent s) d = d" for s
      using Cons.prems(1,2) by (intro map_at_below_text_only)
    then show ?thesis using Cons.prems(1) by (simp add: textContent_step_def)
  next
    case False
    then show ?thesis using Cons.prems(1,3) by (simp add: textContent_step_def node_at_map_at_other)
  qed
  then show ?case using Cons.IH [of "textContent_step sel response x key d" "Suc key"] Cons.prems(2,3)
    by simp
qed

lemma document_order_nth:
  "document_order ps \<Longrightarrow> i < j \<Longrightarrow> j < length ps \<Longrightarrow> \<not> prefix (ps ! j) (ps ! i)"
  by (simp add: document_order_def sorted_wrt_iff_nth_less)

lemma textContent_entry_at:
  fixes sel response d
  defines "els \<equiv> querySelectorAll sel d" and "found \<equiv> querySelectorAll sel response"
  assumes i: "i < length els"
    and free: "list_all (\<lambda>x. \<not> prefix (fst x) (fst (els ! i))) (take (min i (length found)) els)"
  shows "node_at (fst (els ! i)) (apply_each (textContent_step sel response) 0 els d)
         = Some (if i < length found then set_textContent (get_textContent (snd (found ! i))) (snd (els ! i))
                 else snd (els ! i))"
proof -
  let ?p = "fst (els ! i)" and ?g = "textContent_step sel response"
  let ?d1 = "apply_each ?g 0 (take i els) d"
  have ord: "document_order (map fst els)" by (simp add: els_def querySelectorAll_order)
  have "els ! i \<in> set els" using i by simp
  then have "(?p, snd (els ! i)) \<in> set (querySelectorAll sel d)" by (simp add: els_def)
  then have at: "node_at ?p d = Some (snd (els ! i))" and el: "is_element (snd (els ! i))"
    using querySelectorAll_sound by blast+
  have split: "els = take i els @ els ! i # drop (Suc i) els"
    using i by (simp add: id_take_nth_drop)
  have run: "apply_each ?g 0 els d = apply_each ?g (Suc i) (drop (Suc i) els) (?g (els ! i) i ?d1)"
    using i by (subst split) (simp add: apply_each_append min_absorb2)
  have before: "list_all (\<lambda>x. \<not> prefix (fst x) ?p \<and> \<not> prefix ?p (fst x)) (take (length found - 0) (take i els))"
    unfolding list_all_length
  proof (intro allI impI)
    fix j assume "j < length (take (length found - 0) (take i els))"
    then have j: "j < i" "j < length found" using i by simp_all
    have "\<not> prefix (fst (els ! j)) ?p" using free j i by (simp add: list_all_length)
    moreover have "\<not> prefix ?p (fst (els ! j))"
      using document_order_nth [OF ord, of j i] j i by simp
    ultimately show "\<not> prefix (fst (take (length found - 0) (take i els) ! j)) ?p
        \<and> \<not> prefix ?p (fst (take (length found - 0) (take i els) ! j))"
      using j by simp
  qed
  have d1: "node_at ?p ?d1 = Some (snd (els ! i))"
    using textContent_steps_elsewhere [of ?p sel response 0 "take i els" d] before at
    by (simp add: found_def)
  show ?thesis
  proof (cases "i < length found")
    case False
    then have "apply_each ?g 0 els d = ?d1"
      using run by (simp add: textContent_steps_beyond textContent_step_def found_def)
    then show ?thesis using d1 False by simp
  next
    case True
    let ?s = "get_textContent (snd (found ! i))"
    obtain t a l cs where new: "set_textContent ?s (snd (els ! i)) = Element t a l cs"
      and only: "list_all (\<lambda>c. \<not> is_element c) cs"
      using set_textContent_element [OF el] by blast
    have d2: "node_at ?p (?g (els ! i) i ?d1) = Some (Element t a l cs)"
      using True d1 new by (simp add: textContent_step_def node_at_map_at_same found_def)
    have after: "list_all (\<lambda>x. \<not> prefix (fst x) ?p) (drop (Suc i) els)"
      unfolding list_all_length
    proof (intro allI impI)
      fix j assume "j < length (drop (Suc i) els)"
      then have "Suc i + j < length els" by simp
      then show "\<not> prefix (fst (drop (Suc i) els ! j)) ?p"
        using document_order_nth [OF ord, of i "Suc i + j"] i by simp
    qed
    have "node_at ?p (apply_each ?g 0 els d) = Some (Element t a l cs)"
      using textContent_steps_after [OF d2 only after] run by simp
    then show ?thesis using True new by simp
  qed
qed

text \<open>An element below one the loop wrote to before has left the document: its reference
  leads to no element any more.\<close>

lemma textContent_entry_detached:
  fixes sel response d
  defines "els \<equiv> querySelectorAll sel d" and "found \<equiv> querySelectorAll sel response"
  assumes i: "i < length els"
    and covered: "\<not> list_all (\<lambda>x. \<not> prefix (fst x) (fst (els ! i))) (take (min i (length found)) els)"
    and n: "node_at (fst (els ! i)) (apply_each (textContent_step sel response) 0 els d) = Some n"
  shows "\<not> is_element n"
proof -
  let ?p = "fst (els ! i)"
  let ?C = "\<lambda>j. j < min i (length found) \<and> prefix (fst (els ! j)) ?p"
  have ord: "document_order (map fst els)" by (simp add: els_def querySelectorAll_order)
  from covered obtain j0 where "?C j0"
    using i by (auto simp add: list_all_length)
  define j where "j = (LEAST j. ?C j)"
  have j: "?C j" unfolding j_def using \<open>?C j0\<close> by (rule LeastI)
  have least: "\<And>k. ?C k \<Longrightarrow> j \<le> k" unfolding j_def by (rule Least_le)
  have ji: "j < i" and jf: "j < length found" and pre: "prefix (fst (els ! j)) ?p" using j by simp_all
  have jl: "j < length els" using ji i by simp
  have "\<not> prefix ?p (fst (els ! j))"
    using document_order_nth [OF ord, of j i] ji i by simp
  then have sp: "strict_prefix (fst (els ! j)) ?p" using pre by (auto simp: strict_prefix_def)
  have free: "list_all (\<lambda>x. \<not> prefix (fst x) (fst (els ! j))) (take (min j (length found)) els)"
    unfolding list_all_length
  proof (intro allI impI)
    fix k assume "k < length (take (min j (length found)) els)"
    then have k: "k < j" "k < length found" by simp_all
    show "\<not> prefix (fst (take (min j (length found)) els ! k)) (fst (els ! j))"
    proof
      assume "prefix (fst (take (min j (length found)) els ! k)) (fst (els ! j))"
      then have "prefix (fst (els ! k)) (fst (els ! j))" using k by simp
      then have "prefix (fst (els ! k)) ?p" using pre by (rule prefix_order.trans)
      then have "?C k" using k ji by simp
      then have "j \<le> k" by (rule least)
      then show False using k by simp
    qed
  qed
  have "els ! j \<in> set els" using jl by simp
  then have "(fst (els ! j), snd (els ! j)) \<in> set (querySelectorAll sel d)" by (simp add: els_def)
  then have el: "is_element (snd (els ! j))" using querySelectorAll_sound by blast
  obtain t a l cs where new: "set_textContent (get_textContent (snd (found ! j))) (snd (els ! j)) = Element t a l cs"
      and only: "list_all (\<lambda>c. \<not> is_element c) cs"
    using set_textContent_element [OF el] by blast
  have "node_at (fst (els ! j)) (apply_each (textContent_step sel response) 0 els d) = Some (Element t a l cs)"
    using textContent_entry_at [of j sel d response] jl free jf new
    by (simp add: els_def found_def)
  then show ?thesis using only sp n by (rule node_at_below_text_only)
qed

lemma textContent_entry_free:
  assumes "i < length (querySelectorAll sel d)"
    and "list_all (\<lambda>x. \<not> prefix (fst x) (fst (querySelectorAll sel d ! i)))
           (take (min i (length (querySelectorAll sel response))) (querySelectorAll sel d))"
  shows "node_at (fst (querySelectorAll sel d ! i))
           (apply_each (textContent_step sel response) 0 (querySelectorAll sel d) d)
         = Some (if i < length (querySelectorAll sel response)
                 then set_textContent (get_textContent (snd (querySelectorAll sel response ! i)))
                        (snd (querySelectorAll sel d ! i))
                 else snd (querySelectorAll sel d ! i))"
  using textContent_entry_at [OF assms] .

lemma textContent_entry_covered:
  assumes "i < length (querySelectorAll sel d)"
    and "\<not> list_all (\<lambda>x. \<not> prefix (fst x) (fst (querySelectorAll sel d ! i)))
           (take (min i (length (querySelectorAll sel response))) (querySelectorAll sel d))"
  shows "\<not> element_at (fst (querySelectorAll sel d ! i))
           (apply_each (textContent_step sel response) 0 (querySelectorAll sel d) d)"
proof (cases "node_at (fst (querySelectorAll sel d ! i))
           (apply_each (textContent_step sel response) 0 (querySelectorAll sel d) d)")
  case None
  then show ?thesis by (simp add: element_at_def)
next
  case (Some n)
  then have "\<not> is_element n" using textContent_entry_detached [OF assms] by blast
  then show ?thesis using Some by (simp add: element_at_def)
qed

lemma attribute_steps_before:
  "list_all (\<lambda>x. \<not> prefix p (fst x)) xs
   \<Longrightarrow> node_at p (apply_each (attribute_step entry response) key xs d) = node_at p d"
proof (induction xs arbitrary: key d)
  case Nil
  show ?case by simp
next
  case (Cons x xs)
  have "node_at p (attribute_step entry response x key d) = node_at p d"
    using Cons.prems by (simp add: attribute_step_def node_at_map_at_setAttribute_not_below)
  then show ?case using Cons.IH [of "Suc key" "attribute_step entry response x key d"] Cons.prems
    by simp
qed

lemma attribute_steps_elsewhere:
  "list_all (\<lambda>x. fst x \<noteq> p) xs
   \<Longrightarrow> map_option (getAttribute b) (node_at p (apply_each (attribute_step entry response) key xs d))
       = map_option (getAttribute b) (node_at p d)"
proof (induction xs arbitrary: key d)
  case Nil
  show ?case by simp
next
  case (Cons x xs)
  have "map_option (getAttribute b) (node_at p (attribute_step entry response x key d))
        = map_option (getAttribute b) (node_at p d)"
  proof -
    have "p \<noteq> fst x" using Cons.prems by auto
    then show ?thesis by (simp add: attribute_step_def getAttribute_map_at_setAttribute_other)
  qed
  then show ?case using Cons.IH [of "Suc key" "attribute_step entry response x key d"] Cons.prems
    by simp
qed

lemma attribute_entry_at:
  fixes entry response d
  defines "els \<equiv> querySelectorAll (selector entry) d"
    and "found \<equiv> querySelectorAll (selector entry) response"
  defines "d' \<equiv> apply_each (attribute_step entry response) 0 els d"
  assumes i: "i < length els"
  shows "i < length found \<Longrightarrow>
           map_option (getAttribute b) (node_at (fst (els ! i)) d')
           = Some (if b = attribute entry
                   then Some (to_string (getAttribute (attribute entry) (snd (found ! i))))
                   else getAttribute b (snd (els ! i)))"
    and "length found \<le> i \<Longrightarrow> node_at (fst (els ! i)) d' = Some (snd (els ! i))"
proof -
  let ?p = "fst (els ! i)" and ?g = "attribute_step entry response"
  let ?d1 = "apply_each ?g 0 (take i els) d"
  have ord: "document_order (map fst els)" by (simp add: els_def querySelectorAll_order)
  have "els ! i \<in> set els" using i by simp
  then have "(?p, snd (els ! i)) \<in> set (querySelectorAll (selector entry) d)" by (simp add: els_def)
  then have at: "node_at ?p d = Some (snd (els ! i))" and el: "is_element (snd (els ! i))"
    using querySelectorAll_sound by blast+
  have split: "els = take i els @ els ! i # drop (Suc i) els"
    using i by (simp add: id_take_nth_drop)
  have run: "d' = apply_each ?g (Suc i) (drop (Suc i) els) (?g (els ! i) i ?d1)"
    unfolding d'_def using i by (subst split) (simp add: apply_each_append min_absorb2)
  have before: "list_all (\<lambda>x. \<not> prefix ?p (fst x)) (take i els)"
    unfolding list_all_length
  proof (intro allI impI)
    fix j assume "j < length (take i els)"
    then have j: "j < i" using i by simp
    then show "\<not> prefix ?p (fst (take i els ! j))"
      using document_order_nth [OF ord, of j i] i by simp
  qed
  have d1: "node_at ?p ?d1 = Some (snd (els ! i))"
    using attribute_steps_before [OF before] at by simp
  have after: "list_all (\<lambda>x. fst x \<noteq> ?p) (drop (Suc i) els)"
    unfolding list_all_length
  proof (intro allI impI)
    fix j assume "j < length (drop (Suc i) els)"
    then have "Suc i + j < length els" by simp
    then have "\<not> prefix (fst (els ! (Suc i + j))) ?p"
      using document_order_nth [OF ord, of i "Suc i + j"] i by simp
    then show "fst (drop (Suc i) els ! j) \<noteq> ?p" using i by auto
  qed
  show "map_option (getAttribute b) (node_at ?p d')
           = Some (if b = attribute entry
                   then Some (to_string (getAttribute (attribute entry) (snd (found ! i))))
                   else getAttribute b (snd (els ! i)))" if "i < length found"
  proof -
    have "map_option (getAttribute b) (node_at ?p d')
          = map_option (getAttribute b) (node_at ?p (?g (els ! i) i ?d1))"
      unfolding run by (rule attribute_steps_elsewhere [OF after])
    also have "\<dots> = Some (getAttribute b (setAttribute (attribute entry)
                          (getAttribute (attribute entry) (snd (found ! i))) (snd (els ! i))))"
      using that d1 by (simp add: attribute_step_def node_at_map_at_same found_def)
    finally show ?thesis using el by (simp add: getAttribute_setAttribute)
  qed
  show "node_at ?p d' = Some (snd (els ! i))" if "length found \<le> i"
  proof -
    have "d' = ?d1"
      using run that by (simp add: attribute_steps_beyond attribute_step_def found_def)
    then show ?thesis using d1 by simp
  qed
qed

section \<open>The patch pass\<close>

text \<open>The names the selectors of the file use are in lower case already, and of the
  attributes they test only \<^verbatim>\<open>rel\<close> has its value compared without regard to case.\<close>

lemma lower_names:
  "lower ''title'' = ''title''" "lower ''h1'' = ''h1''" "lower ''meta'' = ''meta''"
  "lower ''link'' = ''link''" "lower ''script'' = ''script''" "lower ''name'' = ''name''"
  "lower ''property'' = ''property''" "lower ''rel'' = ''rel''"
  by (simp_all add: lower_def lower_char_def)

lemma folded_names:
  "folded ''name'' s = s" "folded ''property'' s = s" "folded ''rel'' s = lower s"
  by (simp_all add: folded_def lower_names case_insensitive_attributes_def)

text \<open>The definitions that evaluate the load handler on a given page.\<close>

lemmas eval_defs = load_handler_def pjax_load_handler_def window_pjax_def constructor_def
      DEFAULT_REPLACE_def DEFAULT_CONTAINER_def DEFAULT_LINKS_def
      replace_fields_def replace_textContent_entry_def replace_attribute_entry_def
      textContent_callback_def attribute_callback_def item_def
      swap_container_def querySelector_def querySelectorAll_def matches_def matches_compound_def
      is_space_def lower_names folded_names execQueue_def fresh_window_def page_def Let_def

text \<open>
  C2, as the code has it. The two replacement loops as a whole complete normally, for any
  configuration and any two documents. A callback called at a position at which the fetched
  document has no match completes normally and leaves the document it is given as it is.
  Right after the loop of a text selector, every live element it matched at such a position
  is the node it was, unless an element the loop wrote to is an ancestor of it: then it has
  left the document with the old content of that ancestor, and its reference leads to no
  element. Right after the loop of an attribute entry, every live element it matched at such
  a position is the node it was. In both cases the loops of the entries that follow run, from
  the document the loop left.
\<close>

theorem replacement_skips_missing_matches:
  "(\<exists>d'. replace_fields cfg response d = Normal d')
   \<and> (length (querySelectorAll sel response) \<le> key
        \<longrightarrow> textContent_callback sel response element key d0 = Normal d0)
   \<and> (length (querySelectorAll (selector entry) response) \<le> key
        \<longrightarrow> attribute_callback entry response element key d0 = Normal d0)
   \<and> (\<exists>d1. replace_textContent_entry sel response d = Normal d1
          \<and> replace_textContent (sel # sels) response d = replace_textContent sels response d1
          \<and> (\<forall>i. i < length (querySelectorAll sel d) \<and> length (querySelectorAll sel response) \<le> i
                 \<longrightarrow> (if list_all (\<lambda>x. \<not> prefix (fst x) (fst (querySelectorAll sel d ! i)))
                            (take (length (querySelectorAll sel response)) (querySelectorAll sel d))
                      then node_at (fst (querySelectorAll sel d ! i)) d1
                             = Some (snd (querySelectorAll sel d ! i))
                      else \<not> element_at (fst (querySelectorAll sel d ! i)) d1)))
   \<and> (\<exists>d2. replace_attribute_entry entry response d = Normal d2
          \<and> replace_attribute (entry # entries) response d = replace_attribute entries response d2
          \<and> (\<forall>j. j < length (querySelectorAll (selector entry) d)
                   \<and> length (querySelectorAll (selector entry) response) \<le> j
                 \<longrightarrow> node_at (fst (querySelectorAll (selector entry) d ! j)) d2
                       = Some (snd (querySelectorAll (selector entry) d ! j))))"
proof -
  let ?d1 = "apply_each (textContent_step sel response) 0 (querySelectorAll sel d) d"
  let ?d2 = "apply_each (attribute_step entry response) 0 (querySelectorAll (selector entry) d) d"
  have total: "\<exists>d'. replace_fields cfg response d = Normal d'" by (rule replace_fields_total)
  have cb1: "length (querySelectorAll sel response) \<le> key
        \<longrightarrow> textContent_callback sel response element key d0 = Normal d0"
    by (simp add: textContent_callback_total textContent_step_def)
  have cb2: "length (querySelectorAll (selector entry) response) \<le> key
        \<longrightarrow> attribute_callback entry response element key d0 = Normal d0"
    by (simp add: attribute_callback_total attribute_step_def)
  have t1: "replace_textContent_entry sel response d = Normal ?d1"
    by (rule replace_textContent_entry_total)
  have t2: "replace_textContent (sel # sels) response d = replace_textContent sels response ?d1"
    by (simp add: t1)
  have t3: "\<forall>i. i < length (querySelectorAll sel d) \<and> length (querySelectorAll sel response) \<le> i
                 \<longrightarrow> (if list_all (\<lambda>x. \<not> prefix (fst x) (fst (querySelectorAll sel d ! i)))
                            (take (length (querySelectorAll sel response)) (querySelectorAll sel d))
                      then node_at (fst (querySelectorAll sel d ! i)) ?d1
                             = Some (snd (querySelectorAll sel d ! i))
                      else \<not> element_at (fst (querySelectorAll sel d ! i)) ?d1)"
  proof (intro allI impI)
    fix i assume h: "i < length (querySelectorAll sel d) \<and> length (querySelectorAll sel response) \<le> i"
    then have m: "min i (length (querySelectorAll sel response)) = length (querySelectorAll sel response)"
      by simp
    show "if list_all (\<lambda>x. \<not> prefix (fst x) (fst (querySelectorAll sel d ! i)))
                            (take (length (querySelectorAll sel response)) (querySelectorAll sel d))
                      then node_at (fst (querySelectorAll sel d ! i)) ?d1
                             = Some (snd (querySelectorAll sel d ! i))
                      else \<not> element_at (fst (querySelectorAll sel d ! i)) ?d1"
      using textContent_entry_free [of i sel d response] textContent_entry_covered [of i sel d response] h m
      by auto
  qed
  have a1: "replace_attribute_entry entry response d = Normal ?d2"
    by (rule replace_attribute_entry_total)
  have a2: "replace_attribute (entry # entries) response d = replace_attribute entries response ?d2"
    by (simp add: a1)
  have a3: "\<forall>j. j < length (querySelectorAll (selector entry) d)
                   \<and> length (querySelectorAll (selector entry) response) \<le> j
                 \<longrightarrow> node_at (fst (querySelectorAll (selector entry) d ! j)) ?d2
                       = Some (snd (querySelectorAll (selector entry) d ! j))"
    using attribute_entry_at(2) by blast
  show ?thesis using total cb1 cb2 t1 t2 t3 a1 a2 a3 by blast
qed

theorem replacement_skips_missing_matches_witness:
  "thrown (replace_fields (replace (window_pjax :: unit PJAX)) shorter_fetched longer_live) = None
   \<and> textContent_callback [[Tag ''h1'']] shorter_fetched
        ([0, 1, 1], Element ''h1'' [] 0 [Text ''Second'']) 1 longer_live = Normal longer_live
   \<and> attribute_callback
        \<lparr> selector = [[Tag ''meta'', AttrBegins ''property'' ''og:'']], attribute = ''content'' \<rparr>
        shorter_fetched
        ([0, 0, 2], Element ''meta'' [(''property'', ''og:site''), (''content'', ''here'')] 0 []) 1
        longer_live = Normal longer_live
   \<and> node_at [0, 1, 1] (state_of (replace_textContent_entry [[Tag ''h1'']] shorter_fetched longer_live))
       = Some (Element ''h1'' [] 0 [Text ''Second''])
   \<and> \<not> element_at [0, 1, 0, 1]
         (state_of (replace_textContent_entry [[Class ''note'']] one_note_fetched nested_live))
   \<and> node_at [0, 0, 2]
        (state_of (replace_attribute_entry
           \<lparr> selector = [[Tag ''meta'', AttrBegins ''property'' ''og:'']], attribute = ''content'' \<rparr>
           shorter_fetched longer_live))
       = Some (Element ''meta'' [(''property'', ''og:site''), (''content'', ''here'')] 0 [])"
proof -
  let ?h1 = "[[Tag ''h1'']]" and ?note = "[[Class ''note'']]"
  let ?og = "\<lparr> selector = [[Tag ''meta'', AttrBegins ''property'' ''og:'']], attribute = ''content'' \<rparr>"
  let ?second = "([0, 1, 1], Element ''h1'' [] 0 [Text ''Second''])"
  let ?site = "([0, 0, 2], Element ''meta'' [(''property'', ''og:site''), (''content'', ''here'')] 0 [])"
  have els: "querySelectorAll ?h1 longer_live = [([0, 1, 0], Element ''h1'' [] 0 [Text ''First'']), ?second]"
    and found: "querySelectorAll ?h1 shorter_fetched = [([0, 1, 0], Element ''h1'' [] 0 [Text ''Only''])]"
    and els': "querySelectorAll [[Tag ''meta'', AttrBegins ''property'' ''og:'']] longer_live
      = [([0, 0, 1], Element ''meta'' [(''property'', ''og:type''), (''content'', ''article'')] 0 []), ?site]"
    and found': "querySelectorAll [[Tag ''meta'', AttrBegins ''property'' ''og:'']] shorter_fetched
      = [([0, 0, 1], Element ''meta'' [(''property'', ''og:type''), (''content'', ''website'')] 0 [])]"
    by (simp_all add: querySelectorAll_def matches_def matches_compound_def lower_names
        folded_names longer_live_def shorter_fetched_def page_def)
  have nl: "querySelectorAll ?note nested_live
      = [([0, 1, 0], Element ''div'' [(''class'', ''note'')] 0
                       [Text ''outer'', Element ''span'' [(''class'', ''note'')] 0 [Text ''inner'']]),
         ([0, 1, 0, 1], Element ''span'' [(''class'', ''note'')] 0 [Text ''inner''])]"
    and nf: "querySelectorAll ?note one_note_fetched
      = [([0, 1, 0], Element ''div'' [(''class'', ''note'')] 0 [Text ''new''])]"
    by (simp_all add: querySelectorAll_def matches_def matches_compound_def is_space_def
        nested_live_def one_note_fetched_def page_def)
  note A = replacement_skips_missing_matches [where cfg = "replace (window_pjax :: unit PJAX)" and response = shorter_fetched
      and d = longer_live and sel = ?h1 and key = 1 and element = ?second and ?d0.0 = longer_live
      and entry = ?og and sels = "[]" and entries = "[]"]
  note B = replacement_skips_missing_matches [where cfg = "replace (window_pjax :: unit PJAX)" and response = one_note_fetched
      and d = nested_live and sel = ?note and key = 1 and element = ?second and ?d0.0 = nested_live
      and entry = ?og and sels = "[]" and entries = "[]"]
  have 1: "thrown (replace_fields (replace (window_pjax :: unit PJAX)) shorter_fetched longer_live) = None"
    using A by auto
  have 2: "textContent_callback ?h1 shorter_fetched ?second 1 longer_live = Normal longer_live"
    using A by (simp add: found)
  have 3: "attribute_callback ?og shorter_fetched ?site 1 longer_live = Normal longer_live"
    using replacement_skips_missing_matches [where response = shorter_fetched and key = 1 and element = ?site and ?d0.0 = longer_live
        and entry = ?og]
    by (simp add: found')
  from A obtain d1 where d1: "replace_textContent_entry ?h1 shorter_fetched longer_live = Normal d1"
    and u1: "\<forall>i. i < length (querySelectorAll ?h1 longer_live) \<and> length (querySelectorAll ?h1 shorter_fetched) \<le> i
                 \<longrightarrow> (if list_all (\<lambda>x. \<not> prefix (fst x) (fst (querySelectorAll ?h1 longer_live ! i)))
                            (take (length (querySelectorAll ?h1 shorter_fetched)) (querySelectorAll ?h1 longer_live))
                      then node_at (fst (querySelectorAll ?h1 longer_live ! i)) d1
                             = Some (snd (querySelectorAll ?h1 longer_live ! i))
                      else \<not> element_at (fst (querySelectorAll ?h1 longer_live ! i)) d1)"
    by blast
  have 4: "node_at [0, 1, 1] (state_of (replace_textContent_entry ?h1 shorter_fetched longer_live))
       = Some (Element ''h1'' [] 0 [Text ''Second''])"
    using u1 [rule_format, of 1] d1 by (simp add: els found)
  from B obtain d1' where d1': "replace_textContent_entry ?note one_note_fetched nested_live = Normal d1'"
    and u1': "\<forall>i. i < length (querySelectorAll ?note nested_live) \<and> length (querySelectorAll ?note one_note_fetched) \<le> i
                 \<longrightarrow> (if list_all (\<lambda>x. \<not> prefix (fst x) (fst (querySelectorAll ?note nested_live ! i)))
                            (take (length (querySelectorAll ?note one_note_fetched)) (querySelectorAll ?note nested_live))
                      then node_at (fst (querySelectorAll ?note nested_live ! i)) d1'
                             = Some (snd (querySelectorAll ?note nested_live ! i))
                      else \<not> element_at (fst (querySelectorAll ?note nested_live ! i)) d1')"
    by blast
  have 5: "\<not> element_at [0, 1, 0, 1]
         (state_of (replace_textContent_entry ?note one_note_fetched nested_live))"
    using u1' [rule_format, of 1] d1' by (simp add: nl nf)
  from A obtain d2 where d2: "replace_attribute_entry ?og shorter_fetched longer_live = Normal d2"
    and u2: "\<forall>j. j < length (querySelectorAll (selector ?og) longer_live)
                   \<and> length (querySelectorAll (selector ?og) shorter_fetched) \<le> j
                 \<longrightarrow> node_at (fst (querySelectorAll (selector ?og) longer_live ! j)) d2
                       = Some (snd (querySelectorAll (selector ?og) longer_live ! j))"
    by blast
  have 6: "node_at [0, 0, 2] (state_of (replace_attribute_entry ?og shorter_fetched longer_live))
       = Some (Element ''meta'' [(''property'', ''og:site''), (''content'', ''here'')] 0 [])"
    using u2 [rule_format, of 1] d2 by (simp add: els' found')
  show ?thesis using 1 2 3 4 5 6 by blast
qed

text \<open>Over the whole pass an element without a fetched counterpart does not stay as it was
  when a later entry matches it too: the fetched page has no meta element named title, the
  live one is position 0 of name$="title", and the entry property^="og:" rewrites its content.\<close>

theorem skipped_element_rewritten_by_later_entry:
  "querySelectorAll [[Tag ''meta'', AttrEnds ''name'' ''title'']] overlap_live
     = [([0, 0, 0], Element ''meta''
           [(''name'', ''title''), (''property'', ''og:title''), (''content'', ''Old'')] 0 [])]
   \<and> querySelectorAll [[Tag ''meta'', AttrEnds ''name'' ''title'']] og_only_fetched = []
   \<and> thrown (load_handler (window_pjax :: unit PJAX) og_only_fetched (fresh_window overlap_live ())) = None
   \<and> node_at [0, 0, 0]
        (document (state_of (load_handler (window_pjax :: unit PJAX) og_only_fetched
                               (fresh_window overlap_live ()))))
       = Some (Element ''meta''
                 [(''name'', ''title''), (''property'', ''og:title''), (''content'', ''website'')] 0 [])"
  by (simp add: eval_defs overlap_live_def og_only_fetched_def)

text \<open>
  C3, as the code has it. Let d2 be the live document after the two replacement loops and
  response1 the response after the link listeners were attached. If the container selector
  matches nothing in d2 or nothing in response1, the load handler throws a TypeError at the
  swap: the live document stays d2, no script is evaluated and the queue is not replayed.
  If it matches in both, however many elements, the load handler completes normally, and the
  first match of the live document has been replaced by the first match of the response.
\<close>

theorem swap_throws_or_takes_first_match:
  assumes "d2 = state_of (replace_fields (replace this) response (document w))"
    and "response1 = addLinkEvent (querySelectorAll (container this @ links this) response) response"
  shows "(querySelectorAll (container this) d2 = [] \<or> querySelectorAll (container this) response1 = []
            \<longrightarrow> load_handler this response w = Throw TypeError (w\<lparr> document := d2 \<rparr>))
       \<and> (\<forall>cur cs new ns.
             querySelectorAll (container this) d2 = cur # cs
             \<and> querySelectorAll (container this) response1 = new # ns
            \<longrightarrow> (\<exists>w'. load_handler this response w = Normal w'
                      \<and> document w' = map_at (fst cur) (\<lambda>n. snd new) d2
                      \<and> node_at (fst cur) (document w') = Some (snd new)))"
proof -
  obtain d' where d': "replace_fields (replace this) response (document w) = Normal d'"
    using replace_fields_total by blast
  then have [simp]: "d' = d2" by (simp add: assms(1))
  have throws: "load_handler this response w = Throw TypeError (w\<lparr> document := d2 \<rparr>)"
    if "querySelectorAll (container this) d2 = [] \<or> querySelectorAll (container this) response1 = []"
    using that d' assms(2)
    by (auto simp add: load_handler_def Let_def swap_container_def querySelector_def split: list.splits)
  have swaps: "\<exists>w'. load_handler this response w = Normal w'
                      \<and> document w' = map_at (fst cur) (\<lambda>n. snd new) d2
                      \<and> node_at (fst cur) (document w') = Some (snd new)"
    if cur: "querySelectorAll (container this) d2 = cur # cs"
      and new: "querySelectorAll (container this) response1 = new # ns" for cur cs new ns
  proof -
    have "(fst cur, snd cur) \<in> set (querySelectorAll (container this) d2)" using cur by simp
    then have "node_at (fst cur) d2 = Some (snd cur)" using querySelectorAll_sound by blast
    then have "node_at (fst cur) (map_at (fst cur) (\<lambda>n. snd new) d2) = Some (snd new)"
      by (simp add: node_at_map_at_same)
    then show ?thesis
      using cur new d' assms(2)
      by (simp add: load_handler_def Let_def swap_container_def querySelector_def execQueue_def
        unchanged_run_scripts unchanged_execQueue_forEach)
  qed
  show ?thesis using throws swaps by blast
qed

theorem swap_throws_or_takes_first_match_witness:
  "load_handler (window_pjax :: unit PJAX) scenario_fetched (fresh_window no_container_live ())
     = Throw TypeError (fresh_window no_container_live ())
   \<and> (\<exists>w'. load_handler (window_pjax :: unit PJAX) scenario_fetched (fresh_window scenario_live ()) = Normal w'
         \<and> node_at [0, 1, 0] (document w')
             = Some (Element ''div'' [(''class'', ''body'')] 0
                       [Text ''B'', Element ''script'' [] 0 [Text ''window.__x=1'']]))"
proof -
  let ?p = "window_pjax :: unit PJAX"
  note a = swap_throws_or_takes_first_match [OF refl refl, of ?p scenario_fetched "fresh_window no_container_live ()", THEN conjunct1]
  note b = swap_throws_or_takes_first_match [OF refl refl, of ?p scenario_fetched "fresh_window scenario_live ()", THEN conjunct2]
  have 1: "load_handler ?p scenario_fetched (fresh_window no_container_live ())
     = Throw TypeError (fresh_window no_container_live ())"
    using a by (simp add: eval_defs no_container_live_def scenario_fetched_def)
  have 2: "\<exists>w'. load_handler ?p scenario_fetched (fresh_window scenario_live ()) = Normal w'
         \<and> node_at [0, 1, 0] (document w')
             = Some (Element ''div'' [(''class'', ''body'')] 0
                       [Text ''B'', Element ''script'' [] 0 [Text ''window.__x=1'']])"
    using b by (simp add: eval_defs scenario_live_def scenario_fetched_def)
  show ?thesis using 1 2 by blast
qed

text \<open>On a live page without a container the pass fails: it is not skipped.\<close>

theorem missing_container_throws:
  "thrown (load_handler (window_pjax :: unit PJAX) scenario_fetched (fresh_window no_container_live ()))
     = Some TypeError"
  by (simp add: eval_defs scenario_fetched_def no_container_live_def)




text \<open>
  C1, at the input where the code departs from it: the scenario of the specification. The
  load handler of the class completes normally, the live document is the fetched one, and
  no script text has been evaluated: the scripts are looked up in the response after the
  container has been moved out of it. The load handler of the object literal, which looks
  them up before the swap, evaluates the script of the container once.
\<close>

theorem container_scripts_not_evaluated:
  "load_handler (window_pjax :: unit PJAX) scenario_fetched (fresh_window scenario_live ())
     = Normal (fresh_window scenario_fetched ())
   \<and> evaluated (state_of (load_handler (window_pjax :: unit PJAX) scenario_fetched
                             (fresh_window scenario_live ()))) = []
   \<and> evaluated (state_of (pjax_load_handler
         \<lparr> pjax_container = [[Class ''body'']], funQueue = [], pjax_afterLoad = Unset \<rparr>
         scenario_fetched (fresh_window scenario_live ()))) = [''window.__x=1'']"
  by (simp add: eval_defs scenario_fetched_def scenario_live_def)

end
